theory Spec2Isabelle
  imports Main "HOL-Library.Multiset" "HOL-Library.AList" "HOL-Library.List_Lexorder"
    "HOL-Library.Char_ord"
begin

section \<open>Text: characters, character classes, regular expressions\<close>

text \<open>
  A Python \<^verbatim>\<open>str\<close> is modelled as the list of its code points, for text whose code
  points are below 256. The classes are the ones Python's \<^verbatim>\<open>re\<close> uses on
  \<^verbatim>\<open>str\<close> patterns: \<^verbatim>\<open>\s\<close> is every character with \<^verbatim>\<open>str.isspace()\<close>,
  \<^verbatim>\<open>\d\<close> is every decimal digit.
\<close>

definition is_space :: "char \<Rightarrow> bool" where
  "is_space c = (c \<in> set [CHR 0x09, CHR 0x0A, CHR 0x0B, CHR 0x0C, CHR 0x0D,
                            CHR 0x1C, CHR 0x1D, CHR 0x1E, CHR 0x1F, CHR '' '',
                            CHR 0x85, CHR 0xA0])"

definition is_digit :: "char \<Rightarrow> bool" where
  "is_digit c = (c \<in> set ''0123456789'')"

datatype cclass = Digit | Whitespace

fun in_class :: "cclass \<Rightarrow> char \<Rightarrow> bool" where
  "in_class Digit c = is_digit c"
| "in_class Whitespace c = is_space c"

datatype rx = Nothing | Empty | Class cclass | Seq rx rx | Alt rx rx | Star rx

fun nullable :: "rx \<Rightarrow> bool" where
  "nullable Nothing = False"
| "nullable Empty = True"
| "nullable (Class k) = False"
| "nullable (Seq r s) = (nullable r \<and> nullable s)"
| "nullable (Alt r s) = (nullable r \<or> nullable s)"
| "nullable (Star r) = True"

fun deriv :: "char \<Rightarrow> rx \<Rightarrow> rx" where
  "deriv c Nothing = Nothing"
| "deriv c Empty = Nothing"
| "deriv c (Class k) = (if in_class k c then Empty else Nothing)"
| "deriv c (Seq r s) =
     (if nullable r then Alt (Seq (deriv c r) s) (deriv c s) else Seq (deriv c r) s)"
| "deriv c (Alt r s) = Alt (deriv c r) (deriv c s)"
| "deriv c (Star r) = Seq (deriv c r) (Star r)"

text \<open>\<open>fullmatch r s\<close>: the whole of \<open>s\<close> is a word of \<open>r\<close>.\<close>

fun fullmatch :: "rx \<Rightarrow> string \<Rightarrow> bool" where
  "fullmatch r [] = nullable r"
| "fullmatch r (c # cs) = fullmatch (deriv c r) cs"

text \<open>The quantifiers \<^verbatim>\<open>{1,2}\<close>, \<^verbatim>\<open>{2}\<close> and \<^verbatim>\<open>+\<close>.\<close>

definition rep_1_2 :: "rx \<Rightarrow> rx" where
  "rep_1_2 r = Seq r (Alt Empty r)"

definition rep_2 :: "rx \<Rightarrow> rx" where
  "rep_2 r = Seq r r"

definition rep_plus :: "rx \<Rightarrow> rx" where
  "rep_plus r = Seq r (Star r)"

text \<open>
  \<^verbatim>\<open>re.compile('^' ... '$').match(s)\<close>: \<^verbatim>\<open>match\<close> anchors at the start, and \<^verbatim>\<open>$\<close>
  holds at the end of the string or just before a newline that ends it.
\<close>

definition py_match :: "rx \<Rightarrow> string \<Rightarrow> bool" where
  "py_match r s =
     (fullmatch r s \<or> (s \<noteq> [] \<and> last s = CHR 0x0A \<and> fullmatch r (butlast s)))"

text \<open>\<^verbatim>\<open>str.strip()\<close> with no argument removes leading and trailing whitespace.\<close>

definition strip :: "string \<Rightarrow> string" where
  "strip s = rev (dropWhile is_space (rev (dropWhile is_space s)))"

section \<open>The snapshot tables and the cell pattern\<close>

text \<open>
  A cell of a pandas frame is null (\<open>None\<close>: NaN) or holds a value, kept as the text
  \<^verbatim>\<open>str(value)\<close> that every test of the scripts reads it through. \<^verbatim>\<open>str(nan)\<close>
  is \<^verbatim>\<open>'nan'\<close>.
\<close>

type_synonym cell = "string option"

definition str_cell :: "cell \<Rightarrow> string" where
  "str_cell v = (case v of None \<Rightarrow> ''nan'' | Some s \<Rightarrow> s)"

text \<open>
  A row of a snapshot table: the patient it belongs to, a proper identifier, and the
  value of every column.
\<close>

record row =
  ResearchID :: nat
  cells :: "string \<Rightarrow> cell"

datatype pipeline = Pockets | Recessions

text \<open>
  pockets\_snapshot.py: \<^verbatim>\<open>^\s*\d{1,2}(?:\s{1,2}\d{1,2}){2}\s*$\<close>;
  recessions\_snapshots.py: \<^verbatim>\<open>^\s*(\d{1,2})\s+(\d{1,2})\s+(\d{1,2})\s*$\<close>.
\<close>

fun pattern :: "pipeline \<Rightarrow> rx" where
  "pattern Pockets =
     Seq (Star (Class Whitespace))
       (Seq (rep_1_2 (Class Digit))
         (Seq (rep_2 (Seq (rep_1_2 (Class Whitespace)) (rep_1_2 (Class Digit))))
           (Star (Class Whitespace))))"
| "pattern Recessions =
     Seq (Star (Class Whitespace))
       (Seq (rep_1_2 (Class Digit))
         (Seq (rep_plus (Class Whitespace))
           (Seq (rep_1_2 (Class Digit))
             (Seq (rep_plus (Class Whitespace))
               (Seq (rep_1_2 (Class Digit))
                 (Star (Class Whitespace)))))))"

definition pattern_match :: "pipeline \<Rightarrow> string \<Rightarrow> bool" where
  "pattern_match pl s = py_match (pattern pl) s"

section \<open>The six-bucket classification\<close>

text \<open>\<^verbatim>\<open>all(pattern.match(str(row[col])) for col in column_range)\<close>\<close>

definition row_matches_pattern :: "pipeline \<Rightarrow> string list \<Rightarrow> row \<Rightarrow> bool" where
  "row_matches_pattern pl column_range r =
     list_all (\<lambda>col. pattern_match pl (str_cell (cells r col))) column_range"

text \<open>
  The loop with its early \<^verbatim>\<open>return True\<close>. The recessions script also skips a cell
  equal to the empty string.
\<close>

fun row_does_not_match_pattern :: "pipeline \<Rightarrow> string list \<Rightarrow> row \<Rightarrow> bool" where
  "row_does_not_match_pattern pl [] r = False"
| "row_does_not_match_pattern Pockets (col # rest) r =
     (if cells r col \<noteq> None \<and> \<not> pattern_match Pockets (str_cell (cells r col)) then True
      else row_does_not_match_pattern Pockets rest r)"
| "row_does_not_match_pattern Recessions (col # rest) r =
     (if cells r col = None \<or> cells r col = Some [] then
        row_does_not_match_pattern Recessions rest r
      else if \<not> pattern_match Recessions (str_cell (cells r col)) then True
      else row_does_not_match_pattern Recessions rest r)"

text \<open>\<^verbatim>\<open>df[df['ResearchID'] == research_id]\<close>\<close>

definition group_of :: "row list \<Rightarrow> nat \<Rightarrow> row list" where
  "group_of df research_id = filter (\<lambda>r. ResearchID r = research_id) df"

text \<open>\<^verbatim>\<open>group[col].isna().all()\<close> and \<^verbatim>\<open>group[col].notna().all()\<close>\<close>

definition isna_all :: "row list \<Rightarrow> string \<Rightarrow> bool" where
  "isna_all grp col = list_all (\<lambda>r. cells r col = None) grp"

definition notna_all :: "row list \<Rightarrow> string \<Rightarrow> bool" where
  "notna_all grp col = list_all (\<lambda>r. cells r col \<noteq> None) grp"

fun consistent_columns :: "row list \<Rightarrow> string list \<Rightarrow> bool" where
  "consistent_columns grp [] = True"
| "consistent_columns grp (col # rest) =
     (if isna_all grp col then consistent_columns grp rest
      else if \<not> isna_all grp col \<and> \<not> notna_all grp col then False
      else consistent_columns grp rest)"

definition is_fully_consistent_missing_teeth :: "row list \<Rightarrow> string list \<Rightarrow> row \<Rightarrow> bool" where
  "is_fully_consistent_missing_teeth df column_range r =
     (let grp = group_of df (ResearchID r)
      in if length grp \<le> 1 then False else consistent_columns grp column_range)"

fun inconsistent_columns :: "row list \<Rightarrow> string list \<Rightarrow> bool" where
  "inconsistent_columns grp [] = False"
| "inconsistent_columns grp (col # rest) =
     (if \<not> isna_all grp col \<and> \<not> notna_all grp col then True
      else inconsistent_columns grp rest)"

definition is_inconsistent_missing_teeth :: "row list \<Rightarrow> string list \<Rightarrow> row \<Rightarrow> bool" where
  "is_inconsistent_missing_teeth df column_range r =
     (let grp = group_of df (ResearchID r)
      in if length grp \<le> 1 then False else inconsistent_columns grp column_range)"

text \<open>\<^verbatim>\<open>df.groupby('ResearchID').filter(lambda x: len(x) == 1)\<close>\<close>

definition single_visit :: "row list \<Rightarrow> row \<Rightarrow> bool" where
  "single_visit df r = (length (group_of df (ResearchID r)) = 1)"

text \<open>\<^verbatim>\<open>Series.unique()\<close>: the values in order of first appearance.\<close>

fun unique :: "nat list \<Rightarrow> nat list" where
  "unique [] = []"
| "unique (x # xs) = x # unique (filter (\<lambda>y. y \<noteq> x) xs)"

definition ids_of :: "row list \<Rightarrow> nat list" where
  "ids_of df = unique (map ResearchID df)"

text \<open>\<^verbatim>\<open>df[~df['ResearchID'].isin(ids)]\<close>\<close>

definition drop_ids :: "nat list \<Rightarrow> row list \<Rightarrow> row list" where
  "drop_ids ids df = filter (\<lambda>r. ResearchID r \<notin> set ids) df"

record buckets =
  no_missing_data :: "row list"
  systematic_missing_data :: "row list"
  consistent_missing_data :: "row list"
  inconsistent_missing_data :: "row list"
  single_observation_data :: "row list"
  remaining_data :: "row list"

text \<open>
  Lines 20 to 94 of pockets\_snapshot.py and 18 to 83 of recessions\_snapshots.py: each
  bucket is a row filter of the current pool, and the pool then loses every row of the
  patients that the bucket names.
\<close>

definition classify :: "pipeline \<Rightarrow> string list \<Rightarrow> row list \<Rightarrow> buckets" where
  "classify pl column_range data0 =
     (let b1 = filter (row_matches_pattern pl column_range) data0;
          data1 = drop_ids (ids_of b1) data0;
          b2 = filter (row_does_not_match_pattern pl column_range) data1;
          data2 = drop_ids (ids_of b2) data1;
          b3 = filter (is_fully_consistent_missing_teeth data2 column_range) data2;
          data3 = drop_ids (ids_of b3) data2;
          b4 = filter (is_inconsistent_missing_teeth data3 column_range) data3;
          data4 = drop_ids (ids_of b4) data3;
          b5 = filter (single_visit data4) data4;
          data5 = drop_ids (ids_of b5) data4
      in \<lparr> no_missing_data = b1, systematic_missing_data = b2,
           consistent_missing_data = b3, inconsistent_missing_data = b4,
           single_observation_data = b5, remaining_data = data5 \<rparr>)"

datatype PatientCategory =
  NoMissingData | SystematicMissingData | ConsistentMissingData
  | InconsistentMissingData | SingleObservationData | Other

fun bucket_of :: "buckets \<Rightarrow> PatientCategory \<Rightarrow> row list" where
  "bucket_of b NoMissingData = no_missing_data b"
| "bucket_of b SystematicMissingData = systematic_missing_data b"
| "bucket_of b ConsistentMissingData = consistent_missing_data b"
| "bucket_of b InconsistentMissingData = inconsistent_missing_data b"
| "bucket_of b SingleObservationData = single_observation_data b"
| "bucket_of b Other = remaining_data b"

definition all_categories :: "PatientCategory list" where
  "all_categories = [NoMissingData, SystematicMissingData, ConsistentMissingData,
                     InconsistentMissingData, SingleObservationData, Other]"

text \<open>The categories whose bucket holds a row of patient \<open>p\<close>.\<close>

definition categories_assigned :: "buckets \<Rightarrow> nat \<Rightarrow> PatientCategory list" where
  "categories_assigned b p =
     filter (\<lambda>c. p \<in> ResearchID ` set (bucket_of b c)) all_categories"

text \<open>
  The category of one patient read off that patient's own rows \<open>g\<close>: the first of the
  six tests, in the order of the script, that the rows pass. \<open>classify\<close> is compared
  with it below.
\<close>

definition patient_category :: "pipeline \<Rightarrow> string list \<Rightarrow> row list \<Rightarrow> PatientCategory option" where
  "patient_category pl cols g =
     (if g = [] then None
      else if list_ex (row_matches_pattern pl cols) g then Some NoMissingData
      else if list_ex (row_does_not_match_pattern pl cols) g then Some SystematicMissingData
      else if 1 < length g \<and> consistent_columns g cols then Some ConsistentMissingData
      else if 1 < length g \<and> inconsistent_columns g cols then Some InconsistentMissingData
      else if length g = 1 then Some SingleObservationData
      else Some Other)"

text \<open>Three rows used as concrete inputs.\<close>

definition visit_a :: row where
  "visit_a = \<lparr> ResearchID = 1, cells = (\<lambda>col. Some ''3 4 5'') \<rparr>"

definition visit_b :: row where
  "visit_b = \<lparr> ResearchID = 1, cells = (\<lambda>col. None) \<rparr>"

definition visit_c :: row where
  "visit_c = \<lparr> ResearchID = 2, cells = (\<lambda>col. Some ''abc'') \<rparr>"

section \<open>Dates\<close>

text \<open>
  A \<^verbatim>\<open>datetime\<close> built by \<^verbatim>\<open>strptime(s, '%Y-%m-%d')\<close> has midnight as its time, so
  it is its (year, month, day), and \<^verbatim>\<open><=\<close> on two of them is the lexicographic order.
\<close>

type_synonym date = "nat \<times> nat \<times> nat"

fun date_le :: "date \<Rightarrow> date \<Rightarrow> bool" where
  "date_le (y1, m1, d1) (y2, m2, d2) =
     (y1 < y2 \<or> (y1 = y2 \<and> (m1 < m2 \<or> (m1 = m2 \<and> d1 \<le> d2))))"

datatype py_error = ValueError | TypeError

definition is_leap :: "nat \<Rightarrow> bool" where
  "is_leap y = (y mod 4 = 0 \<and> (y mod 100 \<noteq> 0 \<or> y mod 400 = 0))"

definition days_in_month :: "nat \<Rightarrow> nat \<Rightarrow> nat" where
  "days_in_month y m =
     (if m = 2 then (if is_leap y then 29 else 28)
      else if m \<in> {4, 6, 9, 11} then 30 else 31)"

text \<open>The range check of the \<^verbatim>\<open>datetime\<close> constructor.\<close>

definition valid_date :: "date \<Rightarrow> bool" where
  "valid_date dt = (case dt of (y, m, d) \<Rightarrow>
     1 \<le> y \<and> y \<le> 9999 \<and> 1 \<le> m \<and> m \<le> 12 \<and> 1 \<le> d \<and> d \<le> days_in_month y m)"

definition digit_val :: "char \<Rightarrow> nat" where
  "digit_val c = of_char c - 48"

definition num_val :: "string \<Rightarrow> nat" where
  "num_val ds = foldl (\<lambda>n c. 10 * n + digit_val c) 0 ds"

text \<open>
  The directive \<^verbatim>\<open>%m\<close> is the regular expression \<^verbatim>\<open>1[0-2]|0[1-9]|[1-9]\<close> and
  \<^verbatim>\<open>%d\<close> is \<^verbatim>\<open>3[01]|[12]\d|0[1-9]|[1-9]| [1-9]\<close>; the alternatives are tried in
  this order. Each function returns the text of the field and the rest of the input.
\<close>

fun parse_month :: "string \<Rightarrow> (string \<times> string) option" where
  "parse_month (a # b # rest) =
     (if a = CHR ''1'' \<and> b \<in> set ''012'' then Some ([a, b], rest)
      else if a = CHR ''0'' \<and> b \<in> set ''123456789'' then Some ([a, b], rest)
      else if a \<in> set ''123456789'' then Some ([a], b # rest)
      else None)"
| "parse_month [a] = (if a \<in> set ''123456789'' then Some ([a], []) else None)"
| "parse_month [] = None"

fun parse_day :: "string \<Rightarrow> (string \<times> string) option" where
  "parse_day (a # b # rest) =
     (if a = CHR ''3'' \<and> b \<in> set ''01'' then Some ([a, b], rest)
      else if a \<in> set ''12'' \<and> is_digit b then Some ([a, b], rest)
      else if a = CHR ''0'' \<and> b \<in> set ''123456789'' then Some ([a, b], rest)
      else if a \<in> set ''123456789'' then Some ([a], b # rest)
      else if a = CHR '' '' \<and> b \<in> set ''123456789'' then Some ([a, b], rest)
      else None)"
| "parse_day [a] = (if a \<in> set ''123456789'' then Some ([a], []) else None)"
| "parse_day [] = None"

text \<open>
  The fields of a string in the format \<^verbatim>\<open>%Y-%m-%d\<close>: four digits, a hyphen, the
  month, a hyphen, the day, and nothing after it.
\<close>

definition split_ymd :: "string \<Rightarrow> (string \<times> string \<times> string) option" where
  "split_ymd s =
     (if length s < 5 \<or> \<not> list_all is_digit (take 4 s) \<or> s ! 4 \<noteq> CHR ''-'' then None
      else (case parse_month (drop 5 s) of
              None \<Rightarrow> None
            | Some (m, rest) \<Rightarrow>
                (case rest of
                   [] \<Rightarrow> None
                 | c # rest' \<Rightarrow>
                     (if c \<noteq> CHR ''-'' then None
                      else (case parse_day rest' of
                              None \<Rightarrow> None
                            | Some (d, rest'') \<Rightarrow>
                                (if rest'' \<noteq> [] then None
                                 else Some (take 4 s, m, d)))))))"

text \<open>
  \<^verbatim>\<open>datetime.strptime(s, '%Y-%m-%d')\<close> on a string: the fields, read as numbers (a
  leading space of the day field is dropped by \<^verbatim>\<open>int\<close>), then the range check.
  Every failure is a \<^verbatim>\<open>ValueError\<close>.
\<close>

definition strptime :: "string \<Rightarrow> py_error + date" where
  "strptime s =
     (case split_ymd s of
        None \<Rightarrow> Inl ValueError
      | Some (y, m, d) \<Rightarrow>
          (let dt = (num_val y, num_val m, num_val (filter is_digit d))
           in (if valid_date dt then Inr dt else Inl ValueError)))"

section \<open>The cross-validation of one visit\<close>

text \<open>
  A row of \<^verbatim>\<open>combined_df\<close>: \<^verbatim>\<open>row['CHART DATE']\<close> is a string, or null when the
  date was missing; \<^verbatim>\<open>row[col]\<close> for a column label; and the parsed list
  \<^verbatim>\<open>row['Missing Teeth with Dates']\<close>.
\<close>

record combined_row =
  chart_date :: "string option"
  cell_at :: "string \<Rightarrow> cell"
  missing_teeth_dates :: "(date \<times> string) list"

text \<open>\<^verbatim>\<open>s.startswith(p)\<close> and \<^verbatim>\<open>sub in s\<close>\<close>

definition startswith :: "string \<Rightarrow> string \<Rightarrow> bool" where
  "startswith s p = (take (length p) s = p)"

fun contains :: "string \<Rightarrow> string \<Rightarrow> bool" where
  "contains [] sub = (sub = [])"
| "contains (c # cs) sub = (startswith (c # cs) sub \<or> contains cs sub)"

text \<open>
  \<^verbatim>\<open>re.search(r'Tooth (\d{1,2})', col)\<close>: the first place where \<^verbatim>\<open>'Tooth '\<close> and a
  digit stand; group 1 is that digit and the next character when it is a digit too.
\<close>

definition tooth_here :: "string \<Rightarrow> string option" where
  "tooth_here s =
     (if startswith s ''Tooth '' then
        (case drop 6 s of
           [] \<Rightarrow> None
         | a # rest \<Rightarrow>
             if is_digit a then
               (case rest of
                  [] \<Rightarrow> Some [a]
                | b # _ \<Rightarrow> if is_digit b then Some [a, b] else Some [a])
             else None)
      else None)"

fun tooth_search :: "string \<Rightarrow> string option" where
  "tooth_search [] = None"
| "tooth_search (c # cs) =
     (case tooth_here (c # cs) of Some t \<Rightarrow> Some t | None \<Rightarrow> tooth_search cs)"

text \<open>\<^verbatim>\<open>standard_pattern\<close> of \<^verbatim>\<open>record_cells\<close>: \<^verbatim>\<open>^\s*\d{1,2}(?:\s{1,2}\d{1,2}){2}\s*$\<close>\<close>

definition standard_pattern :: rx where
  "standard_pattern =
     Seq (Star (Class Whitespace))
       (Seq (rep_1_2 (Class Digit))
         (Seq (rep_2 (Seq (rep_1_2 (Class Whitespace)) (rep_1_2 (Class Digit))))
           (Star (Class Whitespace))))"

text \<open>The four sets that \<^verbatim>\<open>record_cells\<close> collects.\<close>

record issues =
  missing_pockets_and_record :: "string set"
  missing_pockets_not_record :: "string set"
  missing_pockets_other_issue :: "string set"
  integer_error :: "string set"

definition no_issues :: issues where
  "no_issues = \<lparr> missing_pockets_and_record = {}, missing_pockets_not_record = {},
                 missing_pockets_other_issue = {}, integer_error = {} \<rparr>"

text \<open>The body of the loop over \<^verbatim>\<open>row.index\<close>, for one column label.\<close>

definition check_column :: "combined_row \<Rightarrow> date \<Rightarrow> string \<Rightarrow> issues \<Rightarrow> issues" where
  "check_column r chart col acc =
     (if startswith col ''Tooth'' \<and> (contains col '' P'' \<or> contains col '' B'') then
        (case tooth_search col of
           None \<Rightarrow> acc
         | Some tooth_num \<Rightarrow>
             let cell_value = cell_at r col in
             if cell_value \<noteq> None \<and> \<not> py_match standard_pattern (str_cell cell_value) then
               acc\<lparr>integer_error := insert col (integer_error acc)\<rparr>
             else if list_ex (\<lambda>(missing_date, tooth).
                        tooth = tooth_num \<and> date_le missing_date chart) (missing_teeth_dates r) then
               acc\<lparr>missing_pockets_and_record := insert col (missing_pockets_and_record acc)\<rparr>
             else if cell_value = None then
               (if \<not> list_ex (\<lambda>(missing_date, tooth). tooth = tooth_num) (missing_teeth_dates r) then
                  acc\<lparr>missing_pockets_not_record := insert col (missing_pockets_not_record acc)\<rparr>
                else
                  acc\<lparr>missing_pockets_other_issue := insert col (missing_pockets_other_issue acc)\<rparr>)
             else acc)
      else acc)"

fun check_columns :: "combined_row \<Rightarrow> date \<Rightarrow> string list \<Rightarrow> issues \<Rightarrow> issues" where
  "check_columns r chart [] acc = acc"
| "check_columns r chart (col # rest) acc = check_columns r chart rest (check_column r chart col acc)"

text \<open>
  \<^verbatim>\<open>record_cells(row, combined_df)\<close>, with \<open>index\<close> the column labels of the frame.
  The chart date is parsed before anything else; \<^verbatim>\<open>strptime\<close> raises
  \<^verbatim>\<open>TypeError\<close> on a value that is not a string. The result is the four sets that
  the function then writes to the row.
\<close>

definition record_cells :: "string list \<Rightarrow> combined_row \<Rightarrow> py_error + issues" where
  "record_cells index r =
     (case chart_date r of
        None \<Rightarrow> Inl TypeError
      | Some s \<Rightarrow>
          (case strptime s of
             Inl e \<Rightarrow> Inl e
           | Inr chart \<Rightarrow> Inr (check_columns r chart index no_issues)))"

text \<open>
  \<^verbatim>\<open>combined_df.apply(lambda row: record_cells(row, combined_df), axis=1)\<close> in
  \<^verbatim>\<open>main\<close>: the rows in order; an exception raised for a row ends the whole call.
\<close>

fun apply_record_cells :: "string list \<Rightarrow> combined_row list \<Rightarrow> py_error + issues list" where
  "apply_record_cells index [] = Inr []"
| "apply_record_cells index (r # rest) =
     (case record_cells index r of
        Inl e \<Rightarrow> Inl e
      | Inr iss \<Rightarrow>
          (case apply_record_cells index rest of
             Inl e \<Rightarrow> Inl e
           | Inr others \<Rightarrow> Inr (iss # others)))"

text \<open>Strictly earlier, for two dates.\<close>

definition date_lt :: "date \<Rightarrow> date \<Rightarrow> bool" where
  "date_lt a b = (date_le a b \<and> a \<noteq> b)"

text \<open>
  Names for the tests of the loop body, used to state what the loop collects: the
  test that lets a column label into the body, the malformed-cell test, the
  confirmed-missing test and the test that the log names the tooth at all.
\<close>

definition tooth_column :: "string \<Rightarrow> bool" where
  "tooth_column col = (startswith col ''Tooth'' \<and> (contains col '' P'' \<or> contains col '' B'')
      \<and> tooth_search col \<noteq> None)"

definition malformed :: "combined_row \<Rightarrow> string \<Rightarrow> bool" where
  "malformed r col = (cell_at r col \<noteq> None \<and> \<not> py_match standard_pattern (str_cell (cell_at r col)))"

definition confirmed :: "combined_row \<Rightarrow> date \<Rightarrow> string \<Rightarrow> bool" where
  "confirmed r chart col = (\<exists>md t. tooth_search col = Some t \<and> (md, t) \<in> set (missing_teeth_dates r) \<and> date_le md chart)"

definition logged :: "combined_row \<Rightarrow> string \<Rightarrow> bool" where
  "logged r col = (\<exists>md t. tooth_search col = Some t \<and> (md, t) \<in> set (missing_teeth_dates r))"

text \<open>
  A visit used as a concrete input: the cell of Tooth 14 B is malformed, the other
  cells are null, and the log confirms tooth 14 on the chart date and tooth 15 one day
  later. The second visit has a chart date in another format.
\<close>

definition cv_index :: "string list" where
  "cv_index = [''ResearchID'', ''CHART DATE'', ''Tooth 14 B'', ''Tooth 14 P'',
               ''Tooth 15 B'', ''Tooth 16 B'', ''Missing Issues'']"

definition cv_row :: combined_row where
  "cv_row = \<lparr> chart_date = Some ''2021-03-04'',
              cell_at = (\<lambda>col. if col = ''Tooth 14 B'' then Some ''abc'' else None),
              missing_teeth_dates = [((2021, 3, 4), ''14''), ((2021, 3, 5), ''15'')] \<rparr>"

definition cv_row_bad :: combined_row where
  "cv_row_bad = \<lparr> chart_date = Some ''04/03/2021'',
              cell_at = (\<lambda>col. None),
              missing_teeth_dates = [] \<rparr>"

section \<open>The aggregation of the labels of one patient\<close>

text \<open>
  \<^verbatim>\<open>s.split(', ')\<close>: the pieces of \<open>s\<close> between the occurrences of a comma and a
  space, found from the left; \<open>cur\<close> is the piece being read, reversed.
\<close>

fun split_comma_space :: "string \<Rightarrow> string \<Rightarrow> string list" where
  "split_comma_space cur [] = [rev cur]"
| "split_comma_space cur [c] = [rev (c # cur)]"
| "split_comma_space cur (c # d # rest) =
     (if c = CHR '','' \<and> d = CHR '' '' then rev cur # split_comma_space [] rest
      else split_comma_space (c # cur) (d # rest))"

definition split_items :: "string \<Rightarrow> string list" where
  "split_items s = split_comma_space [] s"

text \<open>
  \<^verbatim>\<open>re.match(r'Tooth (\d{1,2}) (P|B)', s)\<close>: at the start of \<open>s\<close>, the word, a
  space, one or two digits, a space and the letter; the two groups.
\<close>

definition tooth_side_match :: "string \<Rightarrow> (string \<times> string) option" where
  "tooth_side_match s =
     (if startswith s ''Tooth '' then
        (case drop 6 s of
           [] \<Rightarrow> None
         | a # rest \<Rightarrow>
             if \<not> is_digit a then None
             else (case rest of
                     [] \<Rightarrow> None
                   | b # rest' \<Rightarrow>
                       if is_digit b then
                         (case rest' of
                            sp # sd # _ \<Rightarrow>
                              if sp = CHR '' '' \<and> (sd = CHR ''P'' \<or> sd = CHR ''B'')
                              then Some ([a, b], [sd]) else None
                          | _ \<Rightarrow> None)
                       else if b = CHR '' '' then
                         (case rest' of
                            sd # _ \<Rightarrow>
                              if sd = CHR ''P'' \<or> sd = CHR ''B'' then Some ([a], [sd]) else None
                          | [] \<Rightarrow> None)
                       else None))
      else None)"

text \<open>
  \<^verbatim>\<open>tooth_dict\<close>, a dictionary from the tooth to a dictionary from the side to a
  date, as association lists in insertion order. \<open>AList.update\<close> is the assignment
  \<^verbatim>\<open>d[k] = v\<close>.
\<close>

type_synonym sides_dict = "(string \<times> string) list"

type_synonym tooth_dict = "(string \<times> sides_dict) list"

text \<open>
  The body of the inner loop for a matched item: a new tooth gets a dictionary with
  this side and date; a known tooth gets the side when it does not have it yet.
\<close>

definition record_first :: "string \<Rightarrow> string \<Rightarrow> string \<Rightarrow> tooth_dict \<Rightarrow> tooth_dict" where
  "record_first date_str tooth side td =
     (case map_of td tooth of
        None \<Rightarrow> AList.update tooth [(side, date_str)] td
      | Some sides \<Rightarrow>
          if map_of sides side = None
          then AList.update tooth (AList.update side date_str sides) td
          else td)"

fun scan_items :: "string \<Rightarrow> string list \<Rightarrow> tooth_dict \<Rightarrow> tooth_dict" where
  "scan_items date_str [] td = td"
| "scan_items date_str (item # rest) td =
     scan_items date_str rest
       (case tooth_side_match (strip item) of
          None \<Rightarrow> td
        | Some (tooth, side) \<Rightarrow> record_first date_str tooth side td)"

fun scan_rows :: "(string \<times> string) list \<Rightarrow> tooth_dict \<Rightarrow> tooth_dict" where
  "scan_rows [] td = td"
| "scan_rows ((date_str, entries) # rest) td =
     scan_rows rest (scan_items date_str (split_items entries) td)"

text \<open>
  \<^verbatim>\<open>group[['CHART DATE', column_name]].dropna()\<close>: the rows where both values are
  present.
\<close>

fun dropna :: "(string option \<times> string option) list \<Rightarrow> (string \<times> string) list" where
  "dropna [] = []"
| "dropna ((Some d, Some v) # rest) = (d, v) # dropna rest"
| "dropna (_ # rest) = dropna rest"

text \<open>
  The line of one tooth, from the dates recorded for P and for B.
\<close>

definition format_sides :: "string \<Rightarrow> string option \<Rightarrow> string option \<Rightarrow> string" where
  "format_sides tooth p b =
     (case (p, b) of
        (Some date_p, Some date_b) \<Rightarrow>
          if date_p = date_b then ''Tooth '' @ tooth @ '' - B & P - '' @ date_p
          else ''Tooth '' @ tooth @ '' - (B - '' @ date_b @ '') / (P - '' @ date_p @ '')''
      | (Some date_p, None) \<Rightarrow> ''Tooth '' @ tooth @ '' - Only P - '' @ date_p
      | (None, Some date_b) \<Rightarrow> ''Tooth '' @ tooth @ '' - Only B - '' @ date_b
      | (None, None) \<Rightarrow> [])"

definition format_tooth :: "string \<times> sides_dict \<Rightarrow> string" where
  "format_tooth item =
     (case item of (tooth, sides) \<Rightarrow> format_sides tooth (map_of sides ''P'') (map_of sides ''B''))"

text \<open>
  \<^verbatim>\<open>sep.join(xs)\<close> and \<^verbatim>\<open>s.strip(chars)\<close>
\<close>

fun join :: "string \<Rightarrow> string list \<Rightarrow> string" where
  "join sep [] = []"
| "join sep [x] = x"
| "join sep (x # y # rest) = x @ sep @ join sep (y # rest)"

definition strip_chars :: "string \<Rightarrow> string \<Rightarrow> string" where
  "strip_chars chars s =
     rev (dropWhile (\<lambda>c. c \<in> set chars) (rev (dropWhile (\<lambda>c. c \<in> set chars) s)))"

definition tooth_dict_of :: "(string option \<times> string option) list \<Rightarrow> tooth_dict" where
  "tooth_dict_of grp = scan_rows (dropna grp) []"

text \<open>
  \<^verbatim>\<open>sorted(tooth_dict.items())\<close>: the keys are distinct strings, so the items are
  ordered by key, in the order of Python strings (code points, a prefix first).
\<close>

definition sorted_items :: "tooth_dict \<Rightarrow> (string \<times> sides_dict) list" where
  "sorted_items td = sort_key fst td"

definition aggregate_column :: "(string option \<times> string option) list \<Rightarrow> string" where
  "aggregate_column grp =
     strip_chars '', '' (join ''<br>'' (map format_tooth (sorted_items (tooth_dict_of grp))))"

text \<open>
  For stating what the dictionary holds: the date recorded for a tooth and side, the
  (tooth, side) pairs that one label string carries, the date of the first row that
  carries a pair, and the teeth in the order of the output.
\<close>

definition lookup_side :: "tooth_dict \<Rightarrow> string \<Rightarrow> string \<Rightarrow> string option" where
  "lookup_side td tooth side =
     (case map_of td tooth of None \<Rightarrow> None | Some sides \<Rightarrow> map_of sides side)"

definition item_pairs :: "string \<Rightarrow> (string \<times> string) list" where
  "item_pairs entries =
     List.map_filter (\<lambda>item. tooth_side_match (strip item)) (split_items entries)"

definition first_date :: "(string \<times> string) list \<Rightarrow> string \<Rightarrow> string \<Rightarrow> string option" where
  "first_date rows tooth side =
     (case find (\<lambda>(date_str, entries). (tooth, side) \<in> set (item_pairs entries)) rows of
        None \<Rightarrow> None
      | Some (date_str, entries) \<Rightarrow> Some date_str)"

definition reported_teeth :: "(string option \<times> string option) list \<Rightarrow> string list" where
  "reported_teeth grp = map fst (sorted_items (tooth_dict_of grp))"

text \<open>
  The keys of the dictionary are distinct and no tooth has an empty dictionary.
\<close>

definition dict_ok :: "tooth_dict \<Rightarrow> bool" where
  "dict_ok td = (distinct (map fst td) \<and> (\<forall>item \<in> set td. snd item \<noteq> []))"

text \<open>
  Two groups of visits used as concrete inputs.
\<close>

definition ag_visits :: "(string option \<times> string option) list" where
  "ag_visits = [(Some ''2020-01-01'', Some ''Tooth 14 B''),
                (Some ''2020-02-01'', Some ''Tooth 15 P''),
                (Some ''2020-03-01'', Some ''Tooth 14 B, Tooth 15 P'')]"

definition ag_visit_9_14 :: "(string option \<times> string option) list" where
  "ag_visit_9_14 = [(Some ''2020-01-01'', Some ''Tooth 9 B, Tooth 14 B'')]"

section \<open>The parser of the missing-teeth log\<close>

text \<open>
  \<^verbatim>\<open>\w\<close> for code points below 256: letters, digits, the underscore, and the
  characters of the upper half that \<^verbatim>\<open>str.isalnum()\<close> accepts.
\<close>

definition is_word :: "char \<Rightarrow> bool" where
  "is_word c =
     (let n = (of_char c :: nat) in
        (48 \<le> n \<and> n \<le> 57) \<or> (65 \<le> n \<and> n \<le> 90) \<or> n = 95 \<or> (97 \<le> n \<and> n \<le> 122)
      \<or> n \<in> {170, 178, 179, 181, 185, 186, 188, 189, 190}
      \<or> (192 \<le> n \<and> n \<le> 214) \<or> (216 \<le> n \<and> n \<le> 246) \<or> 248 \<le> n)"

text \<open>
  \<^verbatim>\<open>T(\d{1,2})\b\<close> at the head of \<open>s\<close>: two digits when the text ends there or a
  character that is not a word character follows, else one digit under the same
  condition. The result is group 1.
\<close>

definition code_here :: "string \<Rightarrow> string option" where
  "code_here s =
     (case s of
        c # a # rest \<Rightarrow>
          if c = CHR ''T'' \<and> is_digit a then
            (case rest of
               [] \<Rightarrow> Some [a]
             | b # rest' \<Rightarrow>
                 if is_digit b \<and> (case rest' of [] \<Rightarrow> True | x # _ \<Rightarrow> \<not> is_word x)
                 then Some [a, b]
                 else if \<not> is_word b then Some [a]
                 else None)
          else None
      | _ \<Rightarrow> None)"

text \<open>
  \<^verbatim>\<open>re.sub(r'\bT(\d{1,2})\b', r'Tooth \1', text)\<close>, read from the left:
  \<open>prev_word\<close> says whether the character before is a word character (the first
  \<^verbatim>\<open>\b\<close>), \<open>k\<close> counts the characters of a match still to be passed.
\<close>

fun sub_tooth_codes :: "bool \<Rightarrow> nat \<Rightarrow> string \<Rightarrow> string" where
  "sub_tooth_codes prev_word k [] = []"
| "sub_tooth_codes prev_word (Suc k) (c # cs) = sub_tooth_codes (is_word c) k cs"
| "sub_tooth_codes prev_word 0 (c # cs) =
     (case (if prev_word then None else code_here (c # cs)) of
        Some ds \<Rightarrow> ''Tooth '' @ ds @ sub_tooth_codes True (length ds) cs
      | None \<Rightarrow> c # sub_tooth_codes (is_word c) 0 cs)"

definition replace_tooth_codes :: "string \<Rightarrow> string" where
  "replace_tooth_codes text = sub_tooth_codes False 0 text"

text \<open>
  \<^verbatim>\<open>(\d{4}-\d{2}-\d{2}) - Tooth (\d{1,2})\<close> at the head of \<open>s\<close>; the second
  group takes two digits when two stand there. The result is the two groups.
\<close>

definition entry_here :: "string \<Rightarrow> (string \<times> string) option" where
  "entry_here s =
     (if 20 \<le> length s
         \<and> list_all is_digit (take 4 s) \<and> s ! 4 = CHR ''-''
         \<and> is_digit (s ! 5) \<and> is_digit (s ! 6) \<and> s ! 7 = CHR ''-''
         \<and> is_digit (s ! 8) \<and> is_digit (s ! 9)
         \<and> take 9 (drop 10 s) = '' - Tooth ''
         \<and> is_digit (s ! 19)
      then Some (take 10 s,
                 if 21 \<le> length s \<and> is_digit (s ! 20) then [s ! 19, s ! 20] else [s ! 19])
      else None)"

text \<open>
  The scan of \<^verbatim>\<open>re.findall\<close>: from the left, a match is reported with its position
  and the scan goes on after its last character; \<open>k\<close> counts the characters of the
  match still to be passed. \<^verbatim>\<open>findall\<close> returns the groups.
\<close>

fun finditer_entries :: "nat \<Rightarrow> nat \<Rightarrow> string \<Rightarrow> (nat \<times> string \<times> string) list" where
  "finditer_entries pos k [] = []"
| "finditer_entries pos (Suc k) (c # cs) = finditer_entries (Suc pos) k cs"
| "finditer_entries pos 0 (c # cs) =
     (case entry_here (c # cs) of
        None \<Rightarrow> finditer_entries (Suc pos) 0 cs
      | Some (d, t) \<Rightarrow> (pos, d, t) # finditer_entries (Suc pos) (18 + length t) cs)"

definition findall_entries :: "string \<Rightarrow> (string \<times> string) list" where
  "findall_entries s = map snd (finditer_entries 0 0 s)"

text \<open>
  The list comprehension with \<^verbatim>\<open>datetime.strptime(date, '%Y-%m-%d')\<close>: the first
  date that fails raises.
\<close>

fun with_dates :: "(string \<times> string) list \<Rightarrow> py_error + (date \<times> string) list" where
  "with_dates [] = Inr []"
| "with_dates ((d, tooth) # rest) =
     (case strptime d of
        Inl e \<Rightarrow> Inl e
      | Inr dt \<Rightarrow>
          (case with_dates rest of
             Inl e \<Rightarrow> Inl e
           | Inr others \<Rightarrow> Inr ((dt, tooth) # others)))"

text \<open>
  \<^verbatim>\<open>extract_missing_teeth_with_dates\<close>: the argument is a string (\<open>Some\<close>) or any
  other value (\<open>None\<close>), for which the \<^verbatim>\<open>isinstance\<close> test fails.
\<close>

definition extract_missing_teeth_with_dates :: "string option \<Rightarrow> py_error + (date \<times> string) list" where
  "extract_missing_teeth_with_dates missing_issues =
     (case missing_issues of
        Some s \<Rightarrow> with_dates (findall_entries s)
      | None \<Rightarrow> Inr [])"

text \<open>
  The two steps of \<^verbatim>\<open>main\<close> on the column of the log:
  \<^verbatim>\<open>replace_tooth_codes\<close> on the strings, then the extraction.
\<close>

definition missing_log_parser :: "string option \<Rightarrow> py_error + (date \<times> string) list" where
  "missing_log_parser x = extract_missing_teeth_with_dates (map_option replace_tooth_codes x)"

text \<open>
  For stating what the scan reports: the position after a reported match, the shape
  of a date text, and the statement that the pattern matches at a position with the
  given groups: there stand a date text, the words " - Tooth " and the digits of the
  tooth, which are two when a second digit follows the first and one otherwise.
\<close>

definition span_end :: "nat \<times> string \<times> string \<Rightarrow> nat" where
  "span_end m = (case m of (i, d, t) \<Rightarrow> i + 19 + length t)"

definition date_shape :: "string \<Rightarrow> bool" where
  "date_shape d =
     (length d = 10 \<and> list_all is_digit (take 4 d) \<and> d ! 4 = CHR ''-''
      \<and> is_digit (d ! 5) \<and> is_digit (d ! 6) \<and> d ! 7 = CHR ''-''
      \<and> is_digit (d ! 8) \<and> is_digit (d ! 9))"

definition matches_at :: "string \<Rightarrow> nat \<times> string \<times> string \<Rightarrow> bool" where
  "matches_at s m = (case m of (i, d, t) \<Rightarrow>
     drop i s = d @ '' - Tooth '' @ t @ drop (i + 19 + length t) s
     \<and> date_shape d \<and> list_all is_digit t
     \<and> length t = (if i + 20 < length s \<and> is_digit (s ! (i + 20)) then 2 else 1))"

text \<open>
  A log text in the form that missing\_snapshots.py writes.
\<close>

definition log_text :: string where
  "log_text = ''2021-03-04 - T14 NOTES - Missing<br>2020-05-01 - T9 NOTES - Missing''"

section \<open>The words of a pattern\<close>

text \<open>
  The words of a regular expression, to state what \<open>fullmatch\<close> decides: \<open>star A\<close>
  is every concatenation of words of \<open>A\<close>.
\<close>

inductive_set star :: "string set \<Rightarrow> string set" for A :: "string set" where
  star_empty: "[] \<in> star A"
| star_more: "u \<in> A \<Longrightarrow> v \<in> star A \<Longrightarrow> u @ v \<in> star A"

fun lang :: "rx \<Rightarrow> string set" where
  "lang Nothing = {}"
| "lang Empty = {[]}"
| "lang (Class k) = {[c] | c. in_class k c}"
| "lang (Seq r s) = {u @ v | u v. u \<in> lang r \<and> v \<in> lang s}"
| "lang (Alt r s) = lang r \<union> lang s"
| "lang (Star r) = star (lang r)"

text \<open>
  The claim in its own words: an integer of one or two digits, a gap of one or two
  whitespace characters, a gap of one or more, and a text that is three such integers
  with a gap between each two and nothing else.
\<close>

definition small_int :: "string \<Rightarrow> bool" where
  "small_int w = ((length w = 1 \<or> length w = 2) \<and> list_all is_digit w)"

definition gap_1_2 :: "string \<Rightarrow> bool" where
  "gap_1_2 w = ((length w = 1 \<or> length w = 2) \<and> list_all is_space w)"

definition gap_1_more :: "string \<Rightarrow> bool" where
  "gap_1_more w = (w \<noteq> [] \<and> list_all is_space w)"

definition three_integers :: "(string \<Rightarrow> bool) \<Rightarrow> string \<Rightarrow> bool" where
  "three_integers gap t =
     (\<exists>a g1 b g2 c. t = a @ g1 @ b @ g2 @ c
        \<and> small_int a \<and> gap g1 \<and> small_int b \<and> gap g2 \<and> small_int c)"

section \<open>Properties of the classification\<close>

lemma set_unique: "set (unique xs) = set xs"
  by (induction xs rule: unique.induct) auto

lemma set_ids_of: "set (ids_of df) = ResearchID ` set df"
  by (simp add: ids_of_def set_unique)

lemma group_of_drop_ids:
  "group_of (drop_ids ids df) p = (if p \<in> set ids then [] else group_of df p)"
  by (induction df) (auto simp: group_of_def drop_ids_def)

lemma in_ids_filter:
  "p \<in> ResearchID ` set (filter f df) \<longleftrightarrow> (\<exists>r \<in> set (group_of df p). f r)"
  by (auto simp: group_of_def)

lemma in_ids_pool:
  "p \<in> ResearchID ` set df \<longleftrightarrow> group_of df p \<noteq> []"
  by (auto simp: group_of_def filter_empty_conv)

lemma group_of_rid: "r \<in> set (group_of df p) \<Longrightarrow> ResearchID r = p"
  by (simp add: group_of_def)

lemma in_ids_group_pred:
  assumes "\<And>r. ResearchID r = p \<Longrightarrow> f r = Q"
  shows "p \<in> ResearchID ` set (filter f df) \<longleftrightarrow> (group_of df p \<noteq> [] \<and> Q)"
proof -
  have "(\<exists>r \<in> set (group_of df p). f r) \<longleftrightarrow> (\<exists>r \<in> set (group_of df p). Q)"
    using assms group_of_rid by blast
  also have "\<dots> \<longleftrightarrow> (group_of df p \<noteq> [] \<and> Q)"
    by (cases "group_of df p") auto
  finally show ?thesis by (simp only: in_ids_filter)
qed

lemma in_ids_consistent:
  "p \<in> ResearchID ` set (filter (is_fully_consistent_missing_teeth df cols) df) \<longleftrightarrow>
   (1 < length (group_of df p) \<and> consistent_columns (group_of df p) cols)"
proof -
  have "p \<in> ResearchID ` set (filter (is_fully_consistent_missing_teeth df cols) df) \<longleftrightarrow>
     (group_of df p \<noteq> [] \<and> (1 < length (group_of df p) \<and> consistent_columns (group_of df p) cols))"
    by (rule in_ids_group_pred) (auto simp: is_fully_consistent_missing_teeth_def Let_def)
  then show ?thesis by auto
qed

lemma in_ids_inconsistent:
  "p \<in> ResearchID ` set (filter (is_inconsistent_missing_teeth df cols) df) \<longleftrightarrow>
   (1 < length (group_of df p) \<and> inconsistent_columns (group_of df p) cols)"
proof -
  have "p \<in> ResearchID ` set (filter (is_inconsistent_missing_teeth df cols) df) \<longleftrightarrow>
     (group_of df p \<noteq> [] \<and> (1 < length (group_of df p) \<and> inconsistent_columns (group_of df p) cols))"
    by (rule in_ids_group_pred) (auto simp: is_inconsistent_missing_teeth_def Let_def)
  then show ?thesis by auto
qed

lemma in_ids_single:
  "p \<in> ResearchID ` set (filter (single_visit df) df) \<longleftrightarrow> length (group_of df p) = 1"
proof -
  have "p \<in> ResearchID ` set (filter (single_visit df) df) \<longleftrightarrow>
     (group_of df p \<noteq> [] \<and> length (group_of df p) = 1)"
    by (rule in_ids_group_pred) (auto simp: single_visit_def)
  then show ?thesis by auto
qed

lemma bucket_members:
  fixes pl cols df p
  defines "g \<equiv> group_of df p"
  defines "b \<equiv> classify pl cols df"
  defines "m1 \<equiv> list_ex (row_matches_pattern pl cols) g"
  defines "m2 \<equiv> \<not> m1 \<and> list_ex (row_does_not_match_pattern pl cols) g"
  defines "m3 \<equiv> \<not> m1 \<and> \<not> m2 \<and> 1 < length g \<and> consistent_columns g cols"
  defines "m4 \<equiv> \<not> m1 \<and> \<not> m2 \<and> \<not> m3 \<and> 1 < length g \<and> inconsistent_columns g cols"
  defines "m5 \<equiv> \<not> m1 \<and> \<not> m2 \<and> \<not> m3 \<and> \<not> m4 \<and> length g = 1"
  shows "p \<in> ResearchID ` set (no_missing_data b) \<longleftrightarrow> m1"
    and "p \<in> ResearchID ` set (systematic_missing_data b) \<longleftrightarrow> m2"
    and "p \<in> ResearchID ` set (consistent_missing_data b) \<longleftrightarrow> m3"
    and "p \<in> ResearchID ` set (inconsistent_missing_data b) \<longleftrightarrow> m4"
    and "p \<in> ResearchID ` set (single_observation_data b) \<longleftrightarrow> m5"
    and "p \<in> ResearchID ` set (remaining_data b) \<longleftrightarrow>
           \<not> m1 \<and> \<not> m2 \<and> \<not> m3 \<and> \<not> m4 \<and> \<not> m5 \<and> g \<noteq> []"
proof -
  define b1 where "b1 = filter (row_matches_pattern pl cols) df"
  define d1 where "d1 = drop_ids (ids_of b1) df"
  define b2 where "b2 = filter (row_does_not_match_pattern pl cols) d1"
  define d2 where "d2 = drop_ids (ids_of b2) d1"
  define b3 where "b3 = filter (is_fully_consistent_missing_teeth d2 cols) d2"
  define d3 where "d3 = drop_ids (ids_of b3) d2"
  define b4 where "b4 = filter (is_inconsistent_missing_teeth d3 cols) d3"
  define d4 where "d4 = drop_ids (ids_of b4) d3"
  define b5 where "b5 = filter (single_visit d4) d4"
  define d5 where "d5 = drop_ids (ids_of b5) d4"
  have b: "b = \<lparr> no_missing_data = b1, systematic_missing_data = b2,
           consistent_missing_data = b3, inconsistent_missing_data = b4,
           single_observation_data = b5, remaining_data = d5 \<rparr>"
    unfolding b_def classify_def Let_def b1_def d1_def b2_def d2_def b3_def d3_def
      b4_def d4_def b5_def d5_def ..
  have i1: "p \<in> ResearchID ` set b1 \<longleftrightarrow> m1"
    by (simp only: b1_def in_ids_filter m1_def g_def list_ex_iff)
  have g1: "group_of d1 p = (if m1 then [] else g)"
    by (simp only: d1_def group_of_drop_ids set_ids_of i1 g_def)
  have i2: "p \<in> ResearchID ` set b2 \<longleftrightarrow> m2"
    unfolding b2_def in_ids_filter g1 m2_def by (simp add: list_ex_iff)
  have g2: "group_of d2 p = (if m1 \<or> m2 then [] else g)"
    unfolding d2_def group_of_drop_ids set_ids_of i2 g1 by simp
  have i3: "p \<in> ResearchID ` set b3 \<longleftrightarrow> m3"
    unfolding b3_def in_ids_consistent g2 m3_def by auto
  have g3: "group_of d3 p = (if m1 \<or> m2 \<or> m3 then [] else g)"
    unfolding d3_def group_of_drop_ids set_ids_of i3 g2 by simp
  have i4: "p \<in> ResearchID ` set b4 \<longleftrightarrow> m4"
    unfolding b4_def in_ids_inconsistent g3 m4_def by auto
  have g4: "group_of d4 p = (if m1 \<or> m2 \<or> m3 \<or> m4 then [] else g)"
    unfolding d4_def group_of_drop_ids set_ids_of i4 g3 by simp
  have i5: "p \<in> ResearchID ` set b5 \<longleftrightarrow> m5"
    unfolding b5_def in_ids_single g4 m5_def by auto
  have g5: "group_of d5 p = (if m1 \<or> m2 \<or> m3 \<or> m4 \<or> m5 then [] else g)"
    unfolding d5_def group_of_drop_ids set_ids_of i5 g4 by simp
  have i6: "p \<in> ResearchID ` set d5 \<longleftrightarrow>
      \<not> m1 \<and> \<not> m2 \<and> \<not> m3 \<and> \<not> m4 \<and> \<not> m5 \<and> g \<noteq> []"
    unfolding in_ids_pool g5 by simp
  show "p \<in> ResearchID ` set (no_missing_data b) \<longleftrightarrow> m1" using i1 by (simp add: b)
  show "p \<in> ResearchID ` set (systematic_missing_data b) \<longleftrightarrow> m2" using i2 by (simp add: b)
  show "p \<in> ResearchID ` set (consistent_missing_data b) \<longleftrightarrow> m3" using i3 by (simp add: b)
  show "p \<in> ResearchID ` set (inconsistent_missing_data b) \<longleftrightarrow> m4" using i4 by (simp add: b)
  show "p \<in> ResearchID ` set (single_observation_data b) \<longleftrightarrow> m5" using i5 by (simp add: b)
  show "p \<in> ResearchID ` set (remaining_data b) \<longleftrightarrow>
           \<not> m1 \<and> \<not> m2 \<and> \<not> m3 \<and> \<not> m4 \<and> \<not> m5 \<and> g \<noteq> []" using i6 by (simp add: b)
qed

lemma bucket_iff: "p \<in> ResearchID ` set (bucket_of (classify pl cols df) c) \<longleftrightarrow>
   patient_category pl cols (group_of df p) = Some c"
proof (cases c)
  case NoMissingData
  then show ?thesis
    by (auto simp: bucket_members(1) patient_category_def)
next
  case SystematicMissingData
  then show ?thesis
    by (auto simp: bucket_members(2) patient_category_def)
next
  case ConsistentMissingData
  then show ?thesis
    by (auto simp: bucket_members(3) patient_category_def)
next
  case InconsistentMissingData
  then show ?thesis
    by (auto simp: bucket_members(4) patient_category_def)
next
  case SingleObservationData
  then show ?thesis
    by (auto simp: bucket_members(5) patient_category_def)
next
  case Other
  then show ?thesis
    by (auto simp: bucket_members(6) patient_category_def)
qed

lemma categories_assigned_classify:
  "categories_assigned (classify pl cols df) p =
     (case patient_category pl cols (group_of df p) of None \<Rightarrow> [] | Some c \<Rightarrow> [c])"
proof (cases "patient_category pl cols (group_of df p)")
  case None
  then show ?thesis
    by (simp add: categories_assigned_def bucket_iff)
next
  case (Some c)
  then show ?thesis
    by (cases c) (simp_all add: categories_assigned_def bucket_iff all_categories_def)
qed

lemma patient_category_None: "patient_category pl cols g = None \<longleftrightarrow> g = []"
  by (simp add: patient_category_def)

text \<open>
  Claim C1. Every patient of the input table is assigned exactly one of the six
  categories, in both pipelines: exactly one of the six buckets that \<open>classify\<close>
  returns holds rows of that patient.
\<close>

theorem C1_exactly_one_category:
  assumes "p \<in> ResearchID ` set df"
  shows "length (categories_assigned (classify pl cols df) p) = 1"
proof -
  from assms have "group_of df p \<noteq> []" by (simp add: in_ids_pool)
  then obtain c where "patient_category pl cols (group_of df p) = Some c"
    using patient_category_None [of pl cols "group_of df p"] by auto
  then show ?thesis by (simp add: categories_assigned_classify)
qed

lemma match_3_4_5: "pattern_match Pockets ''3 4 5''"
  by (simp add: pattern_match_def py_match_def rep_1_2_def rep_2_def is_space_def is_digit_def)

lemma no_match_nan: "\<not> pattern_match Pockets ''nan''"
  by (simp add: pattern_match_def py_match_def rep_1_2_def rep_2_def is_space_def is_digit_def)

text \<open>The same at patient 1 of a table of three rows.\<close>

theorem C1_witness:
  "(1::nat) \<in> ResearchID ` set [visit_a, visit_b, visit_c] \<and>
   length (categories_assigned (classify Pockets [''Tooth 18 B''] [visit_a, visit_b, visit_c]) 1) = 1"
proof -
  have h: "(1::nat) \<in> ResearchID ` set [visit_a, visit_b, visit_c]"
    by (simp add: visit_a_def)
  from C1_exactly_one_category [OF h] h show ?thesis by blast
qed

lemma filter_ab: "filter (row_matches_pattern Pockets [''Tooth 18 B'']) [visit_a, visit_b] = [visit_a]"
  by (simp add: row_matches_pattern_def str_cell_def visit_a_def visit_b_def match_3_4_5 no_match_nan)

lemma drop_ab: "drop_ids (ids_of [visit_a]) [visit_a, visit_b] = []"
  by (simp add: ids_of_def drop_ids_def visit_a_def visit_b_def)

lemma classify_ab:
  "classify Pockets [''Tooth 18 B''] [visit_a, visit_b] =
     \<lparr> no_missing_data = [visit_a], systematic_missing_data = [],
       consistent_missing_data = [], inconsistent_missing_data = [],
       single_observation_data = [], remaining_data = [] \<rparr>"
  unfolding classify_def Let_def filter_ab drop_ab by (simp add: drop_ids_def)

lemma visit_a_neq_b: "visit_b \<noteq> visit_a"
proof
  assume "visit_b = visit_a"
  then have "cells visit_b [] = cells visit_a []" by simp
  then show False by (simp add: visit_a_def visit_b_def)
qed

text \<open>
  Claim C2. The claim asks that a patient is in NoMissingData only when every cell of
  every visit matches the pattern. The script tests rows one by one: patient 1 below has
  a visit whose cell matches and a visit whose cell is null, and is put in NoMissingData;
  the visit with the null cell is then in none of the six buckets. The comment of the
  script reads: all teeth data exists per patient, no missingness.
\<close>

theorem C2_mixed_patient_in_no_missing_data:
  "ResearchID visit_a = 1 \<and> ResearchID visit_b = 1
   \<and> cells visit_a ''Tooth 18 B'' = Some ''3 4 5''
   \<and> cells visit_b ''Tooth 18 B'' = None
   \<and> categories_assigned (classify Pockets [''Tooth 18 B''] [visit_a, visit_b]) 1 = [NoMissingData]
   \<and> classify Pockets [''Tooth 18 B''] [visit_a, visit_b] =
       \<lparr> no_missing_data = [visit_a], systematic_missing_data = [],
         consistent_missing_data = [], inconsistent_missing_data = [],
         single_observation_data = [], remaining_data = [] \<rparr>
   \<and> visit_b \<noteq> visit_a"
proof -
  have 1: "categories_assigned (classify Pockets [''Tooth 18 B''] [visit_a, visit_b]) 1 = [NoMissingData]"
    unfolding classify_ab by (simp add: categories_assigned_def all_categories_def visit_a_def)
  have 2: "cells visit_b ''Tooth 18 B'' = None" "ResearchID visit_b = 1"
    by (simp_all add: visit_b_def)
  have 3: "cells visit_a ''Tooth 18 B'' = Some ''3 4 5''" "ResearchID visit_a = 1"
    by (simp_all add: visit_a_def)
  from 1 2 3 classify_ab visit_a_neq_b show ?thesis by blast
qed

lemma isna_all_set: "set g = set g' \<Longrightarrow> isna_all g c = isna_all g' c"
  by (simp add: isna_all_def list_all_iff)

lemma notna_all_set: "set g = set g' \<Longrightarrow> notna_all g c = notna_all g' c"
  by (simp add: notna_all_def list_all_iff)

lemma consistent_columns_set:
  "set g = set g' \<Longrightarrow> consistent_columns g cols = consistent_columns g' cols"
  by (induction cols) (simp_all add: isna_all_set [of g g'] notna_all_set [of g g'])

lemma inconsistent_columns_set:
  "set g = set g' \<Longrightarrow> inconsistent_columns g cols = inconsistent_columns g' cols"
  by (induction cols) (simp_all add: isna_all_set [of g g'] notna_all_set [of g g'])

lemma patient_category_mset:
  assumes "mset g = mset g'"
  shows "patient_category pl cols g = patient_category pl cols g'"
proof -
  from assms have s: "set g = set g'" by (rule mset_eq_setD)
  from assms have l: "length g = length g'" by (rule mset_eq_length)
  from l have e: "g = [] \<longleftrightarrow> g' = []" by auto
  show ?thesis
    unfolding patient_category_def list_ex_iff
      consistent_columns_set [OF s, of cols] inconsistent_columns_set [OF s, of cols]
    by (simp only: s l e)
qed

text \<open>
  Claim C10. The category of a patient depends only on the multiset of that patient's
  rows: two tables that hold the same rows of patient \<open>p\<close>, in any order and among any
  rows of other patients, assign \<open>p\<close> the same categories, in both pipelines.
\<close>

theorem C10_category_permutation_invariant:
  assumes "mset (group_of df p) = mset (group_of df' p)"
  shows "categories_assigned (classify pl cols df) p = categories_assigned (classify pl cols df') p"
  by (simp only: categories_assigned_classify patient_category_mset [OF assms])

text \<open>Patient 1 with the visits in two orders, the rows of patient 2 in between.\<close>

theorem C10_witness:
  "mset (group_of [visit_a, visit_b, visit_c] 1) = mset (group_of [visit_b, visit_c, visit_a] 1) \<and>
   categories_assigned (classify Recessions [''Tooth 18 B''] [visit_a, visit_b, visit_c]) 1 =
   categories_assigned (classify Recessions [''Tooth 18 B''] [visit_b, visit_c, visit_a]) 1"
proof -
  have h: "mset (group_of [visit_a, visit_b, visit_c] 1) = mset (group_of [visit_b, visit_c, visit_a] 1)"
    by (simp add: group_of_def visit_a_def visit_b_def visit_c_def)
  from C10_category_permutation_invariant [OF h] h show ?thesis by blast
qed




section \<open>Properties of the cross-validation\<close>

lemma strptime_error: "strptime s = Inl e \<Longrightarrow> e = ValueError"
  by (auto simp: strptime_def Let_def split: if_splits option.splits prod.splits)

lemma list_ex_confirmed:
  "tooth_search col = Some t \<Longrightarrow>
   list_ex (\<lambda>(missing_date, tooth). tooth = t \<and> date_le missing_date chart) (missing_teeth_dates r)
     = confirmed r chart col"
  by (auto simp: list_ex_iff confirmed_def)

lemma list_ex_logged:
  "tooth_search col = Some t \<Longrightarrow>
   list_ex (\<lambda>(missing_date, tooth). tooth = t) (missing_teeth_dates r) = logged r col"
  by (auto simp: list_ex_iff logged_def)

lemma check_column_skip:
  "\<not> tooth_column col \<Longrightarrow> check_column r chart col acc = acc"
  by (auto simp: check_column_def tooth_column_def split: option.splits)

lemma check_column_tooth:
  assumes "tooth_column col"
  shows "check_column r chart col acc =
     (if malformed r col then acc\<lparr>integer_error := insert col (integer_error acc)\<rparr>
      else if confirmed r chart col then
        acc\<lparr>missing_pockets_and_record := insert col (missing_pockets_and_record acc)\<rparr>
      else if cell_at r col = None then
        (if \<not> logged r col then
           acc\<lparr>missing_pockets_not_record := insert col (missing_pockets_not_record acc)\<rparr>
         else acc\<lparr>missing_pockets_other_issue := insert col (missing_pockets_other_issue acc)\<rparr>)
      else acc)"
proof -
  from assms obtain t where t: "tooth_search col = Some t"
    by (auto simp: tooth_column_def)
  from assms have g: "startswith col ''Tooth'' \<and> (contains col '' P'' \<or> contains col '' B'')"
    by (simp add: tooth_column_def)
  show ?thesis
    unfolding check_column_def Let_def
    by (simp only: g t option.case list_ex_confirmed [OF t] list_ex_logged [OF t] malformed_def
          if_True simp_thms)
qed

lemma step_integer_error:
  "integer_error (check_column r chart col acc) =
     (if tooth_column col \<and> malformed r col then insert col (integer_error acc)
      else integer_error acc)"
  by (cases "tooth_column col") (simp_all add: check_column_tooth check_column_skip)

lemma step_and_record:
  "missing_pockets_and_record (check_column r chart col acc) =
     (if tooth_column col \<and> \<not> malformed r col \<and> confirmed r chart col
      then insert col (missing_pockets_and_record acc)
      else missing_pockets_and_record acc)"
  by (cases "tooth_column col") (simp_all add: check_column_tooth check_column_skip)

lemma step_not_record:
  "missing_pockets_not_record (check_column r chart col acc) =
     (if tooth_column col \<and> \<not> malformed r col \<and> \<not> confirmed r chart col
          \<and> cell_at r col = None \<and> \<not> logged r col
      then insert col (missing_pockets_not_record acc)
      else missing_pockets_not_record acc)"
  by (cases "tooth_column col") (simp_all add: check_column_tooth check_column_skip)

lemma step_other_issue:
  "missing_pockets_other_issue (check_column r chart col acc) =
     (if tooth_column col \<and> \<not> malformed r col \<and> \<not> confirmed r chart col
          \<and> cell_at r col = None \<and> logged r col
      then insert col (missing_pockets_other_issue acc)
      else missing_pockets_other_issue acc)"
  by (cases "tooth_column col") (simp_all add: check_column_tooth check_column_skip)

lemma loop_collects:
  assumes step: "\<And>c a. F (check_column r chart c a) = (if P c then insert c (F a) else F a)"
  shows "x \<in> F (check_columns r chart idx acc) \<longleftrightarrow> x \<in> F acc \<or> (x \<in> set idx \<and> P x)"
proof (induction idx arbitrary: acc)
  case Nil
  show ?case by simp
next
  case (Cons c cs)
  show ?case by (simp add: Cons.IH step) blast
qed

lemma loop_integer_error:
  "x \<in> integer_error (check_columns r chart idx acc) \<longleftrightarrow>
     x \<in> integer_error acc \<or> (x \<in> set idx \<and> tooth_column x \<and> malformed r x)"
  by (rule loop_collects) (rule step_integer_error)

lemma loop_and_record:
  "x \<in> missing_pockets_and_record (check_columns r chart idx acc) \<longleftrightarrow>
     x \<in> missing_pockets_and_record acc \<or>
     (x \<in> set idx \<and> tooth_column x \<and> \<not> malformed r x \<and> confirmed r chart x)"
  by (rule loop_collects) (rule step_and_record)

lemma loop_not_record:
  "x \<in> missing_pockets_not_record (check_columns r chart idx acc) \<longleftrightarrow>
     x \<in> missing_pockets_not_record acc \<or>
     (x \<in> set idx \<and> tooth_column x \<and> \<not> malformed r x \<and> \<not> confirmed r chart x
        \<and> cell_at r x = None \<and> \<not> logged r x)"
  by (rule loop_collects) (rule step_not_record)

lemma loop_other_issue:
  "x \<in> missing_pockets_other_issue (check_columns r chart idx acc) \<longleftrightarrow>
     x \<in> missing_pockets_other_issue acc \<or>
     (x \<in> set idx \<and> tooth_column x \<and> \<not> malformed r x \<and> \<not> confirmed r chart x
        \<and> cell_at r x = None \<and> logged r x)"
  by (rule loop_collects) (rule step_other_issue)

lemma record_cells_Inr:
  assumes "record_cells idx r = Inr iss"
  obtains s chart where "chart_date r = Some s" and "strptime s = Inr chart"
    and "iss = check_columns r chart idx no_issues"
  using assms by (auto simp: record_cells_def split: option.splits sum.splits)

lemmas in_issues = loop_integer_error loop_and_record loop_not_record loop_other_issue

lemma no_issues_empty [simp]:
  "integer_error no_issues = {}" "missing_pockets_and_record no_issues = {}"
  "missing_pockets_not_record no_issues = {}" "missing_pockets_other_issue no_issues = {}"
  by (simp_all add: no_issues_def)

text \<open>
  Claim C3. For a visit that \<open>record_cells\<close> processes and a tooth column (a label
  of the row that starts with Tooth, contains " P" or " B" and carries a tooth number),
  a cell that is not null and does not match the pattern puts the column in the
  integer-error set and in no other set, whatever the log says about the tooth.
\<close>

theorem C3_malformed_cell_integer_error_only:
  assumes rc: "record_cells index r = Inr iss"
    and col: "col \<in> set index"
    and tooth: "startswith col ''Tooth''"
    and side: "contains col '' P'' \<or> contains col '' B''"
    and num: "tooth_search col \<noteq> None"
    and cell: "cell_at r col = Some v"
    and bad: "\<not> py_match standard_pattern v"
  shows "col \<in> integer_error iss
       \<and> col \<notin> missing_pockets_and_record iss
       \<and> col \<notin> missing_pockets_not_record iss
       \<and> col \<notin> missing_pockets_other_issue iss"
proof -
  from rc obtain s chart where iss: "iss = check_columns r chart index no_issues"
    by (rule record_cells_Inr)
  have tc: "tooth_column col" using tooth side num by (simp add: tooth_column_def)
  have m: "malformed r col" using cell bad by (simp add: malformed_def str_cell_def)
  show ?thesis unfolding iss in_issues using col tc m by simp
qed

lemma strptime_2021_03_04: "strptime ''2021-03-04'' = Inr (2021, 3, 4)"
  by code_simp

lemma record_cells_cv_row:
  "record_cells cv_index cv_row = Inr (check_columns cv_row (2021, 3, 4) cv_index no_issues)"
  by (simp add: record_cells_def cv_row_def strptime_2021_03_04)

lemma tooth_search_14_B: "tooth_search ''Tooth 14 B'' = Some ''14''" by code_simp

lemma tooth_search_14_P: "tooth_search ''Tooth 14 P'' = Some ''14''" by code_simp

lemma tooth_search_15_B: "tooth_search ''Tooth 15 B'' = Some ''15''" by code_simp

lemma startswith_14_B: "startswith ''Tooth 14 B'' ''Tooth''" by code_simp

lemma startswith_14_P: "startswith ''Tooth 14 P'' ''Tooth''" by code_simp

lemma startswith_15_B: "startswith ''Tooth 15 B'' ''Tooth''" by code_simp

lemma contains_14_B: "contains ''Tooth 14 B'' '' B''" by code_simp

lemma contains_14_P: "contains ''Tooth 14 P'' '' P''" by code_simp

lemma contains_15_B: "contains ''Tooth 15 B'' '' B''" by code_simp

lemma no_match_abc_standard: "\<not> py_match standard_pattern ''abc''" by code_simp

text \<open>
  Tooth 14 B of the example visit: the cell is malformed and the log confirms tooth 14
  on the chart date.
\<close>

theorem C3_witness:
  "record_cells cv_index cv_row = Inr (check_columns cv_row (2021, 3, 4) cv_index no_issues)
   \<and> ''Tooth 14 B'' \<in> set cv_index
   \<and> startswith ''Tooth 14 B'' ''Tooth''
   \<and> contains ''Tooth 14 B'' '' B''
   \<and> tooth_search ''Tooth 14 B'' = Some ''14''
   \<and> cell_at cv_row ''Tooth 14 B'' = Some ''abc''
   \<and> \<not> py_match standard_pattern ''abc''
   \<and> ((2021, 3, 4), ''14'') \<in> set (missing_teeth_dates cv_row)
   \<and> ''Tooth 14 B'' \<in> integer_error (check_columns cv_row (2021, 3, 4) cv_index no_issues)
   \<and> ''Tooth 14 B'' \<notin> missing_pockets_and_record (check_columns cv_row (2021, 3, 4) cv_index no_issues)
   \<and> ''Tooth 14 B'' \<notin> missing_pockets_not_record (check_columns cv_row (2021, 3, 4) cv_index no_issues)
   \<and> ''Tooth 14 B'' \<notin> missing_pockets_other_issue (check_columns cv_row (2021, 3, 4) cv_index no_issues)"
proof -
  have 1: "''Tooth 14 B'' \<in> set cv_index" by (simp add: cv_index_def)
  have 2: "contains ''Tooth 14 B'' '' P'' \<or> contains ''Tooth 14 B'' '' B''"
    using contains_14_B by blast
  have 3: "tooth_search ''Tooth 14 B'' \<noteq> None" unfolding tooth_search_14_B by simp
  have 4: "cell_at cv_row ''Tooth 14 B'' = Some ''abc''" by (simp add: cv_row_def)
  have 5: "((2021, 3, 4), ''14'') \<in> set (missing_teeth_dates cv_row)" by (simp add: cv_row_def)
  from C3_malformed_cell_integer_error_only
    [OF record_cells_cv_row 1 startswith_14_B 2 3 4 no_match_abc_standard]
    record_cells_cv_row 1 startswith_14_B contains_14_B tooth_search_14_B 4 no_match_abc_standard 5
  show ?thesis by blast
qed

lemma date_le_refl: "date_le d d"
  by (cases d) simp

lemma date_lt_not_le: "date_lt a b \<Longrightarrow> \<not> date_le b a"
  by (cases a; cases b) (auto simp: date_lt_def)

text \<open>
  Claim C4. For a tooth column that is not in the integer-error set: a log entry for
  the tooth dated exactly the chart date puts the column in the confirmed-and-recorded
  set; when the log has entries for the tooth, all of them strictly after the chart
  date, and the cell is null, the column is in the other-issue set and not in the
  confirmed-and-recorded set.
\<close>

theorem C4_date_boundary_inclusive:
  assumes rc: "record_cells index r = Inr iss"
    and cd: "chart_date r = Some s"
    and sp: "strptime s = Inr chart"
    and col: "col \<in> set index"
    and tooth: "startswith col ''Tooth''"
    and side: "contains col '' P'' \<or> contains col '' B''"
    and num: "tooth_search col = Some t"
    and ok: "col \<notin> integer_error iss"
  shows "((chart, t) \<in> set (missing_teeth_dates r) \<longrightarrow> col \<in> missing_pockets_and_record iss)
       \<and> ((\<exists>md. (md, t) \<in> set (missing_teeth_dates r))
            \<and> (\<forall>md. (md, t) \<in> set (missing_teeth_dates r) \<longrightarrow> date_lt chart md)
            \<and> cell_at r col = None
          \<longrightarrow> col \<in> missing_pockets_other_issue iss \<and> col \<notin> missing_pockets_and_record iss)"
proof -
  from rc cd sp have iss: "iss = check_columns r chart index no_issues"
    by (simp add: record_cells_def)
  have tc: "tooth_column col" using tooth side num by (simp add: tooth_column_def)
  from ok have nm: "\<not> malformed r col"
    unfolding iss loop_integer_error using col tc by simp
  have a: "col \<in> missing_pockets_and_record iss" if "(chart, t) \<in> set (missing_teeth_dates r)"
  proof -
    from that num have "confirmed r chart col"
      unfolding confirmed_def using date_le_refl by blast
    then show ?thesis unfolding iss loop_and_record using col tc nm by simp
  qed
  have b: "col \<in> missing_pockets_other_issue iss \<and> col \<notin> missing_pockets_and_record iss"
    if ex: "\<exists>md. (md, t) \<in> set (missing_teeth_dates r)"
      and after: "\<forall>md. (md, t) \<in> set (missing_teeth_dates r) \<longrightarrow> date_lt chart md"
      and null: "cell_at r col = None"
  proof -
    from ex num have l: "logged r col" unfolding logged_def by blast
    from after num have nc: "\<not> confirmed r chart col"
      unfolding confirmed_def using date_lt_not_le by auto
    show ?thesis unfolding iss loop_other_issue loop_and_record using col tc nm l nc null by simp
  qed
  from a b show ?thesis by blast
qed

text \<open>
  Tooth 14 P (entry on the chart date) and Tooth 15 B (entry one day later, null cell)
  of the example visit.
\<close>

theorem C4_witness:
  "record_cells cv_index cv_row = Inr (check_columns cv_row (2021, 3, 4) cv_index no_issues)
   \<and> chart_date cv_row = Some ''2021-03-04''
   \<and> strptime ''2021-03-04'' = Inr (2021, 3, 4)
   \<and> ''Tooth 14 P'' \<in> set cv_index \<and> ''Tooth 15 B'' \<in> set cv_index
   \<and> ''Tooth 14 P'' \<notin> integer_error (check_columns cv_row (2021, 3, 4) cv_index no_issues)
   \<and> ''Tooth 15 B'' \<notin> integer_error (check_columns cv_row (2021, 3, 4) cv_index no_issues)
   \<and> ((2021, 3, 4), ''14'') \<in> set (missing_teeth_dates cv_row)
   \<and> ''Tooth 14 P'' \<in> missing_pockets_and_record (check_columns cv_row (2021, 3, 4) cv_index no_issues)
   \<and> ((2021, 3, 5), ''15'') \<in> set (missing_teeth_dates cv_row)
   \<and> date_lt (2021, 3, 4) (2021, 3, 5)
   \<and> cell_at cv_row ''Tooth 15 B'' = None
   \<and> ''Tooth 15 B'' \<in> missing_pockets_other_issue (check_columns cv_row (2021, 3, 4) cv_index no_issues)
   \<and> ''Tooth 15 B'' \<notin> missing_pockets_and_record (check_columns cv_row (2021, 3, 4) cv_index no_issues)"
proof -
  let ?iss = "check_columns cv_row (2021, 3, 4) cv_index no_issues"
  have cd: "chart_date cv_row = Some ''2021-03-04''" by (simp add: cv_row_def)
  have i1: "''Tooth 14 P'' \<in> set cv_index" and i2: "''Tooth 15 B'' \<in> set cv_index"
    by (simp_all add: cv_index_def)
  have s1: "contains ''Tooth 14 P'' '' P'' \<or> contains ''Tooth 14 P'' '' B''"
    using contains_14_P by blast
  have s2: "contains ''Tooth 15 B'' '' P'' \<or> contains ''Tooth 15 B'' '' B''"
    using contains_15_B by blast
  have n1: "''Tooth 14 P'' \<notin> integer_error ?iss" and n2: "''Tooth 15 B'' \<notin> integer_error ?iss"
    unfolding loop_integer_error by (simp_all add: malformed_def cv_row_def)
  have e1: "((2021, 3, 4), ''14'') \<in> set (missing_teeth_dates cv_row)"
    and e2: "((2021, 3, 5), ''15'') \<in> set (missing_teeth_dates cv_row)"
    by (simp_all add: cv_row_def)
  have lt: "date_lt (2021, 3, 4) (2021, 3, 5)" by (simp add: date_lt_def)
  have all: "\<forall>md. (md, ''15'') \<in> set (missing_teeth_dates cv_row) \<longrightarrow> date_lt (2021, 3, 4) md"
    using lt by (simp add: cv_row_def)
  have null: "cell_at cv_row ''Tooth 15 B'' = None" by (simp add: cv_row_def)
  from C4_date_boundary_inclusive
    [OF record_cells_cv_row cd strptime_2021_03_04 i1 startswith_14_P s1 tooth_search_14_P n1] e1
  have r1: "''Tooth 14 P'' \<in> missing_pockets_and_record ?iss" by blast
  from C4_date_boundary_inclusive
    [OF record_cells_cv_row cd strptime_2021_03_04 i2 startswith_15_B s2 tooth_search_15_B n2]
    e2 all null
  have r2: "''Tooth 15 B'' \<in> missing_pockets_other_issue ?iss
      \<and> ''Tooth 15 B'' \<notin> missing_pockets_and_record ?iss" by blast
  from record_cells_cv_row cd strptime_2021_03_04 i1 i2 n1 n2 e1 e2 lt null r1 r2
  show ?thesis by blast
qed

lemma apply_record_cells_raises:
  "r \<in> set rows \<Longrightarrow> record_cells index r = Inl e \<Longrightarrow> isl (apply_record_cells index rows)"
  by (induction rows) (auto split: sum.splits)

text \<open>
  Claim C5 asks that a visit whose chart date does not parse gets four empty sets and
  that nothing is raised. \<open>record_cells\<close> parses the date with no guard: for the
  date 04/03/2021 it raises ValueError, no set is returned, and the call over the
  whole table ends with that error.
\<close>

theorem C5_unparseable_date_no_result:
  "record_cells cv_index cv_row_bad = Inl ValueError
   \<and> apply_record_cells cv_index [cv_row_bad, cv_row] = Inl ValueError"
proof -
  have "strptime ''04/03/2021'' = Inl ValueError" by code_simp
  then have "record_cells cv_index cv_row_bad = Inl ValueError"
    by (simp add: record_cells_def cv_row_bad_def)
  then show ?thesis by simp
qed

text \<open>
  Claim C5, as the code has it: when the chart date of a visit does not parse,
  \<open>record_cells\<close> raises ValueError for that visit, and so does the call over any
  table that holds the visit.
\<close>

theorem C5_unparseable_date_raises:
  assumes "chart_date r = Some s" and "strptime s = Inl e" and "r \<in> set rows"
  shows "record_cells index r = Inl ValueError \<and> isl (apply_record_cells index rows)"
proof -
  from assms(2) have "e = ValueError" by (rule strptime_error)
  with assms(1,2) have "record_cells index r = Inl ValueError"
    by (simp add: record_cells_def)
  with assms(3) show ?thesis using apply_record_cells_raises by blast
qed

text \<open>
  The visit dated 04/03/2021, in a table after a visit that is processed.
\<close>

theorem C5_witness:
  "chart_date cv_row_bad = Some ''04/03/2021''
   \<and> strptime ''04/03/2021'' = Inl ValueError
   \<and> cv_row_bad \<in> set [cv_row, cv_row_bad]
   \<and> record_cells cv_index cv_row_bad = Inl ValueError
   \<and> isl (apply_record_cells cv_index [cv_row, cv_row_bad])"
proof -
  have 1: "chart_date cv_row_bad = Some ''04/03/2021''" by (simp add: cv_row_bad_def)
  have 2: "strptime ''04/03/2021'' = Inl ValueError" by code_simp
  have 3: "cv_row_bad \<in> set [cv_row, cv_row_bad]" by simp
  from C5_unparseable_date_raises [OF 1 2 3, of cv_index] 1 2 3 show ?thesis by blast
qed

section \<open>Properties of the aggregation\<close>

lemma lookup_record_first:
  "lookup_side (record_first d t s td) t' s' =
     (if t' = t \<and> s' = s \<and> lookup_side td t s = None then Some d else lookup_side td t' s')"
  by (auto simp: lookup_side_def record_first_def update_conv' split: option.splits)

lemma lookup_scan_items:
  "lookup_side (scan_items d items td) t s =
     (case lookup_side td t s of
        Some d' \<Rightarrow> Some d'
      | None \<Rightarrow> if (t, s) \<in> set (List.map_filter (\<lambda>item. tooth_side_match (strip item)) items)
                then Some d else None)"
proof (induction items arbitrary: td)
  case Nil
  show ?case by (simp split: option.splits)
next
  case (Cons item items)
  show ?case
  proof (cases "tooth_side_match (strip item)")
    case None
    then show ?thesis by (simp add: Cons.IH)
  next
    case (Some p)
    obtain a b where p: "p = (a, b)" by (cases p)
    show ?thesis
      by (cases "lookup_side td t s") (auto simp: Some p Cons.IH lookup_record_first)
  qed
qed

lemma lookup_scan_rows:
  "lookup_side (scan_rows rows td) t s =
     (case lookup_side td t s of Some d' \<Rightarrow> Some d' | None \<Rightarrow> first_date rows t s)"
proof (induction rows arbitrary: td)
  case Nil
  show ?case by (simp add: first_date_def split: option.splits)
next
  case (Cons row rows)
  obtain d e where row: "row = (d, e)" by (cases row)
  show ?case unfolding row
    by (cases "lookup_side td t s")
       (simp_all add: Cons.IH lookup_scan_items first_date_def item_pairs_def)
qed

lemma lookup_tooth_dict_of:
  "lookup_side (tooth_dict_of grp) t s = first_date (dropna grp) t s"
  unfolding tooth_dict_of_def lookup_scan_rows by (simp add: lookup_side_def)

lemma update_not_empty: "AList.update k v al \<noteq> []"
  by (cases al) auto

lemma set_update_subset: "set (AList.update k v al) \<subseteq> insert (k, v) (set al)"
  by (induction al) auto

lemma dict_ok_update:
  assumes "dict_ok td" and "v \<noteq> []"
  shows "dict_ok (AList.update k v td)"
proof -
  have "snd item \<noteq> []" if "item \<in> set (AList.update k v td)" for item
  proof -
    from that set_update_subset have "item = (k, v) \<or> item \<in> set td" by fastforce
    with assms show ?thesis by (auto simp: dict_ok_def)
  qed
  moreover from assms have "distinct (map fst (AList.update k v td))"
    by (simp add: dict_ok_def distinct_update)
  ultimately show ?thesis by (simp add: dict_ok_def)
qed

lemma dict_ok_record_first: "dict_ok td \<Longrightarrow> dict_ok (record_first d t s td)"
  by (simp add: record_first_def dict_ok_update update_not_empty split: option.splits)

lemma dict_ok_scan_items: "dict_ok td \<Longrightarrow> dict_ok (scan_items d items td)"
proof (induction items arbitrary: td)
  case Nil
  then show ?case by simp
next
  case (Cons item items)
  then show ?case
    by (cases "tooth_side_match (strip item)") (auto simp: dict_ok_record_first)
qed

lemma dict_ok_scan_rows: "dict_ok td \<Longrightarrow> dict_ok (scan_rows rows td)"
proof (induction rows arbitrary: td)
  case Nil
  then show ?case by simp
next
  case (Cons row rows)
  obtain d e where row: "row = (d, e)" by (cases row)
  from Cons show ?case unfolding row by (simp add: dict_ok_scan_items)
qed

lemma dict_ok_tooth_dict_of: "dict_ok (tooth_dict_of grp)"
  unfolding tooth_dict_of_def by (rule dict_ok_scan_rows) (simp add: dict_ok_def)

lemma keys_iff_lookup:
  assumes "dict_ok td"
  shows "t \<in> fst ` set td \<longleftrightarrow> (\<exists>s. lookup_side td t s \<noteq> None)"
proof
  assume "t \<in> fst ` set td"
  then obtain sd where sd: "map_of td t = Some sd"
    by (metis map_of_eq_None_iff not_Some_eq)
  then have "(t, sd) \<in> set td" by (rule map_of_SomeD)
  with assms have "sd \<noteq> []" by (force simp: dict_ok_def)
  then obtain k v rest where "sd = (k, v) # rest" by (cases sd) auto
  then have "map_of sd k = Some v" by simp
  with sd show "\<exists>s. lookup_side td t s \<noteq> None" by (auto simp: lookup_side_def)
next
  assume "\<exists>s. lookup_side td t s \<noteq> None"
  then have "map_of td t \<noteq> None" by (auto simp: lookup_side_def split: option.splits)
  then show "t \<in> fst ` set td" by (simp add: map_of_eq_None_iff)
qed

lemma set_reported_teeth:
  "set (reported_teeth grp) = {t. \<exists>s. first_date (dropna grp) t s \<noteq> None}"
proof -
  have k: "t \<in> fst ` set (tooth_dict_of grp) \<longleftrightarrow> (\<exists>s. first_date (dropna grp) t s \<noteq> None)"
    for t
    using keys_iff_lookup [OF dict_ok_tooth_dict_of, of t grp]
    by (simp only: lookup_tooth_dict_of)
  have "set (reported_teeth grp) = {t. t \<in> fst ` set (tooth_dict_of grp)}"
    by (simp add: reported_teeth_def sorted_items_def)
  also have "\<dots> = {t. \<exists>s. first_date (dropna grp) t s \<noteq> None}"
    by (simp only: k)
  finally show ?thesis .
qed

lemma strictly_sorted_reported_teeth: "sorted_wrt (<) (reported_teeth grp)"
proof -
  have d: "distinct (map fst (tooth_dict_of grp))"
    using dict_ok_tooth_dict_of [of grp] by (simp add: dict_ok_def)
  have "mset (map fst (sort_key fst (tooth_dict_of grp))) = mset (map fst (tooth_dict_of grp))"
    by simp
  then have "distinct (map fst (sort_key fst (tooth_dict_of grp)))"
    using d by (metis mset_eq_imp_distinct_iff)
  moreover have "sorted (map fst (sort_key fst (tooth_dict_of grp)))"
    by (rule sorted_sort_key)
  ultimately show ?thesis
    by (simp add: reported_teeth_def sorted_items_def strict_sorted_iff)
qed

lemma format_sorted_items:
  assumes "dict_ok td"
  shows "map format_tooth (sorted_items td) =
         map (\<lambda>t. format_sides t (lookup_side td t ''P'') (lookup_side td t ''B''))
             (map fst (sorted_items td))"
proof -
  have "format_tooth item = format_sides (fst item) (lookup_side td (fst item) ''P'')
          (lookup_side td (fst item) ''B'')" if "item \<in> set (sorted_items td)" for item
  proof -
    obtain t sd where item: "item = (t, sd)" by (cases item)
    from that have "(t, sd) \<in> set td" by (simp add: item sorted_items_def)
    with assms have "map_of td t = Some sd" by (simp add: dict_ok_def)
    then show ?thesis by (simp add: item format_tooth_def lookup_side_def)
  qed
  then show ?thesis by simp
qed

lemma aggregate_column_first_dates:
  "aggregate_column grp =
     strip_chars '', '' (join ''<br>''
       (map (\<lambda>t. format_sides t (first_date (dropna grp) t ''P'') (first_date (dropna grp) t ''B''))
            (reported_teeth grp)))"
  by (simp add: aggregate_column_def format_sorted_items [OF dict_ok_tooth_dict_of]
      lookup_tooth_dict_of reported_teeth_def)

lemma tooth_side_match_digits:
  assumes "tooth_side_match x = Some (t, sd)"
  shows "list_all is_digit t \<and> (length t = 1 \<or> length t = 2)"
  using assms
  by (auto simp: tooth_side_match_def split: if_splits list.splits)

lemma reported_teeth_digits:
  assumes "t \<in> set (reported_teeth grp)"
  shows "list_all is_digit t \<and> (length t = 1 \<or> length t = 2)"
proof -
  from assms obtain s where "first_date (dropna grp) t s \<noteq> None"
    unfolding set_reported_teeth by blast
  then obtain d e where "find (\<lambda>(date_str, entries). (t, s) \<in> set (item_pairs entries)) (dropna grp)
      = Some (d, e)"
    by (auto simp: first_date_def split: option.splits)
  then have "(t, s) \<in> set (item_pairs e)"
    by (auto simp: find_Some_iff)
  then obtain item where "tooth_side_match (strip item) = Some (t, s)"
    by (auto simp: item_pairs_def map_filter_def)
  then show ?thesis by (rule tooth_side_match_digits)
qed

lemma digit_val_less:
  assumes "is_digit a" and "is_digit b"
  shows "a < b \<longleftrightarrow> digit_val a < digit_val b"
proof -
  have "48 \<le> (of_char c :: nat)" if "is_digit c" for c
    using that by (auto simp: is_digit_def)
  with assms show ?thesis
    by (fastforce simp: less_char_def digit_val_def)
qed

lemma digit_val_le_9: "is_digit a \<Longrightarrow> digit_val a \<le> 9"
  by (auto simp: is_digit_def digit_val_def)

lemma length_1_conv: "length xs = 1 \<longleftrightarrow> (\<exists>a. xs = [a])"
  by (cases xs) auto

lemma length_2_conv: "length xs = 2 \<longleftrightarrow> (\<exists>a b. xs = [a, b])"
  by (auto simp: numeral_2_eq_2 length_Suc_conv)

lemma lex_less_numeric_1:
  assumes "is_digit a" and "is_digit b" and "[a] < [b]"
  shows "num_val [a] < num_val [b]"
  using assms by (simp add: num_val_def digit_val_less)

lemma lex_less_numeric_2:
  assumes d: "is_digit a" "is_digit a'" "is_digit b" "is_digit b'" and "[a, a'] < [b, b']"
  shows "num_val [a, a'] < num_val [b, b']"
proof -
  from assms(5) have "a < b \<or> (a = b \<and> a' < b')" by simp
  then have "digit_val a < digit_val b \<or> (digit_val a = digit_val b \<and> digit_val a' < digit_val b')"
    using d by (auto simp: digit_val_less)
  moreover have "digit_val a' \<le> 9" "digit_val b' \<le> 9"
    using d by (simp_all add: digit_val_le_9)
  ultimately have "10 * digit_val a + digit_val a' < 10 * digit_val b + digit_val b'"
    by linarith
  then show ?thesis by (simp add: num_val_def)
qed

lemma lex_less_numeric:
  assumes "list_all is_digit t" and "list_all is_digit u"
    and "length t = length u" and "length t = 1 \<or> length t = 2"
    and "t < u"
  shows "num_val t < num_val u"
  using assms(4)
proof
  assume 1: "length t = 1"
  then obtain a where t: "t = [a]" unfolding length_1_conv by blast
  from 1 assms(3) have "length u = 1" by simp
  then obtain b where u: "u = [b]" unfolding length_1_conv by blast
  from assms(1,2,5) show ?thesis unfolding t u by (intro lex_less_numeric_1) simp_all
next
  assume 2: "length t = 2"
  then obtain a a' where t: "t = [a, a']" unfolding length_2_conv by blast
  from 2 assms(3) have "length u = 2" by simp
  then obtain b b' where u: "u = [b, b']" unfolding length_2_conv by blast
  from assms(1,2,5) show ?thesis unfolding t u by (intro lex_less_numeric_2) simp_all
qed

lemma numeric_order_reported_teeth:
  assumes "\<forall>t \<in> set (reported_teeth grp). \<forall>u \<in> set (reported_teeth grp). length t = length u"
  shows "sorted_wrt (<) (map num_val (reported_teeth grp))"
proof -
  have "num_val t < num_val u"
    if "t \<in> set (reported_teeth grp)" "u \<in> set (reported_teeth grp)" "t < u" for t u
  proof (rule lex_less_numeric)
    show "list_all is_digit t" "length t = 1 \<or> length t = 2"
      using reported_teeth_digits [OF that(1)] by simp_all
    show "list_all is_digit u" using reported_teeth_digits [OF that(2)] by simp
    show "length t = length u" using assms that(1,2) by blast
    show "t < u" by (rule that(3))
  qed
  then have "sorted_wrt (\<lambda>t u. num_val t < num_val u) (reported_teeth grp)"
    by (rule sorted_wrt_mono_rel [OF _ strictly_sorted_reported_teeth])
  then show ?thesis by (simp add: sorted_wrt_map)
qed

text \<open>
  Claim C8 says that the teeth appear in ascending numeric order. The teeth are
  sorted as strings: with the labels Tooth 9 B and Tooth 14 B in one visit, tooth 14
  is reported before tooth 9.
\<close>

theorem C8_numeric_order_fails:
  "reported_teeth ag_visit_9_14 = [''14'', ''9'']
   \<and> num_val ''9'' < num_val ''14''
   \<and> aggregate_column ag_visit_9_14 =
       ''Tooth 14 - Only B - 2020-01-01<br>Tooth 9 - Only B - 2020-01-01''"
  by code_simp

text \<open>
  Claim C8, as the code has it. The output is one line per reported tooth, built from
  the date of the first row, in the order given, whose label string carries the tooth
  with side P and the same for side B; later rows never change a date. The reported
  teeth are those some row carries, in strictly ascending order of the tooth strings;
  this is ascending numeric order when the reported teeth all have the same number of
  digits.
\<close>

theorem C8_first_occurrence_string_order:
  "aggregate_column grp =
     strip_chars '', '' (join ''<br>''
       (map (\<lambda>t. format_sides t (first_date (dropna grp) t ''P'') (first_date (dropna grp) t ''B''))
            (reported_teeth grp)))
   \<and> set (reported_teeth grp) = {t. \<exists>s. first_date (dropna grp) t s \<noteq> None}
   \<and> sorted_wrt (<) (reported_teeth grp)
   \<and> ((\<forall>t \<in> set (reported_teeth grp). \<forall>u \<in> set (reported_teeth grp). length t = length u)
        \<longrightarrow> sorted_wrt (<) (map num_val (reported_teeth grp)))"
  using aggregate_column_first_dates [of grp] set_reported_teeth [of grp]
    strictly_sorted_reported_teeth [of grp] numeric_order_reported_teeth [of grp]
  by blast

text \<open>
  Three visits in date order: Tooth 14 B at the first and the third, Tooth 15 P at the
  second and the third. The output cites the first and the second date.
\<close>

theorem C8_witness:
  "reported_teeth ag_visits = [''14'', ''15'']
   \<and> first_date (dropna ag_visits) ''14'' ''B'' = Some ''2020-01-01''
   \<and> first_date (dropna ag_visits) ''15'' ''P'' = Some ''2020-02-01''
   \<and> sorted_wrt (<) (map num_val (reported_teeth ag_visits))
   \<and> aggregate_column ag_visits =
       ''Tooth 14 - Only B - 2020-01-01<br>Tooth 15 - Only P - 2020-02-01''"
proof -
  have t: "reported_teeth ag_visits = [''14'', ''15'']" by code_simp
  have f1: "first_date (dropna ag_visits) ''14'' ''B'' = Some ''2020-01-01''" by code_simp
  have f2: "first_date (dropna ag_visits) ''15'' ''P'' = Some ''2020-02-01''" by code_simp
  have a: "aggregate_column ag_visits =
       ''Tooth 14 - Only B - 2020-01-01<br>Tooth 15 - Only P - 2020-02-01''" by code_simp
  have h: "\<forall>t \<in> set (reported_teeth ag_visits). \<forall>u \<in> set (reported_teeth ag_visits).
      length t = length u" unfolding t by simp
  from C8_first_occurrence_string_order [of ag_visits] h
  have "sorted_wrt (<) (map num_val (reported_teeth ag_visits))" by blast
  with t f1 f2 a show ?thesis by blast
qed

section \<open>Properties of the log parser\<close>

lemma shift_position:
  assumes "Suc pos + k \<le> i" and "i < Suc pos + length cs"
    and "entry_here (drop (i - Suc pos) cs) = Some m"
  shows "pos + k \<le> i \<and> pos + Suc k \<le> i \<and> i < pos + length (c # cs)
       \<and> entry_here (drop (i - pos) (c # cs)) = Some m"
proof -
  from assms(1) have "i - pos = Suc (i - Suc pos)" by arith
  then have "drop (i - pos) (c # cs) = drop (i - Suc pos) cs" by simp
  with assms show ?thesis by simp
qed

lemma finditer_sound:
  "(i, d, t) \<in> set (finditer_entries pos k s) \<Longrightarrow>
     pos + k \<le> i \<and> i < pos + length s \<and> entry_here (drop (i - pos) s) = Some (d, t)"
proof (induction pos k s rule: finditer_entries.induct)
  case (1 pos k)
  then show ?case by simp
next
  case (2 pos k c cs)
  from 2 have "Suc pos + k \<le> i \<and> i < Suc pos + length cs
      \<and> entry_here (drop (i - Suc pos) cs) = Some (d, t)" by simp
  then show ?case using shift_position [of pos k i cs "(d, t)" c] by blast
next
  case (3 pos c cs)
  show ?case
  proof (cases "entry_here (c # cs)")
    case None
    with 3 have "Suc pos + 0 \<le> i \<and> i < Suc pos + length cs
      \<and> entry_here (drop (i - Suc pos) cs) = Some (d, t)" by simp
    then show ?thesis using shift_position [of pos 0 i cs "(d, t)" c] by blast
  next
    case (Some m)
    obtain d0 t0 where m: "m = (d0, t0)" by (cases m)
    from 3(3) Some m have "(i, d, t) = (pos, d0, t0)
        \<or> (i, d, t) \<in> set (finditer_entries (Suc pos) (18 + length t0) cs)" by simp
    then show ?thesis
    proof
      assume "(i, d, t) = (pos, d0, t0)"
      with Some m show ?thesis by simp
    next
      assume "(i, d, t) \<in> set (finditer_entries (Suc pos) (18 + length t0) cs)"
      with 3(2) [OF Some m [symmetric]]
      have "Suc pos + (18 + length t0) \<le> i \<and> i < Suc pos + length cs
          \<and> entry_here (drop (i - Suc pos) cs) = Some (d, t)" by simp
      then show ?thesis
        using shift_position [of pos "18 + length t0" i cs "(d, t)" c] by auto
    qed
  qed
qed

lemma finditer_after:
  "(i, d, t) \<in> set (finditer_entries pos k s) \<Longrightarrow> pos + k \<le> i"
  using finditer_sound by blast

lemma finditer_disjoint:
  "sorted_wrt (\<lambda>m m'. span_end m \<le> fst m') (finditer_entries pos k s)"
proof (induction pos k s rule: finditer_entries.induct)
  case (1 pos k)
  show ?case by simp
next
  case (2 pos k c cs)
  then show ?case by simp
next
  case (3 pos c cs)
  show ?case
  proof (cases "entry_here (c # cs)")
    case None
    with 3(1) show ?thesis by simp
  next
    case (Some m)
    obtain d0 t0 where m: "m = (d0, t0)" by (cases m)
    have "span_end (pos, d0, t0) \<le> fst m'"
      if "m' \<in> set (finditer_entries (Suc pos) (18 + length t0) cs)" for m'
    proof -
      obtain i d t where m': "m' = (i, d, t)" by (cases m')
      from that finditer_after [of i d t] have "Suc pos + (18 + length t0) \<le> i"
        unfolding m' by blast
      then show ?thesis by (simp add: span_end_def m')
    qed
    with 3(2) [OF Some m [symmetric]] show ?thesis by (simp add: Some m)
  qed
qed

lemma finditer_covers:
  assumes "k \<le> j" and "j < length s" and "entry_here (drop j s) \<noteq> None"
  shows "\<exists>m \<in> set (finditer_entries pos k s). fst m \<le> pos + j \<and> pos + j < span_end m"
  using assms
proof (induction pos k s arbitrary: j rule: finditer_entries.induct)
  case (1 pos k)
  then show ?case by simp
next
  case (2 pos k c cs)
  from 2(2) obtain j' where j: "j = Suc j'" by (cases j) auto
  with 2 have "\<exists>m \<in> set (finditer_entries (Suc pos) k cs).
      fst m \<le> Suc pos + j' \<and> Suc pos + j' < span_end m" by simp
  then show ?case by (simp add: j)
next
  case (3 pos c cs)
  show ?case
  proof (cases "entry_here (c # cs)")
    case None
    with 3(5) obtain j' where j: "j = Suc j'" by (cases j) auto
    with 3(1) [OF None, of j'] 3(4,5) have "\<exists>m \<in> set (finditer_entries (Suc pos) 0 cs).
        fst m \<le> Suc pos + j' \<and> Suc pos + j' < span_end m" by simp
    then show ?thesis by (simp add: j None)
  next
    case (Some m)
    obtain d0 t0 where m: "m = (d0, t0)" by (cases m)
    show ?thesis
    proof (cases "j < 19 + length t0")
      case True
      then show ?thesis by (simp add: Some m span_end_def)
    next
      case False
      then obtain j' where j: "j = Suc j'" and j': "18 + length t0 \<le> j'" by (cases j) auto
      with 3(2) [OF Some m [symmetric], of j'] 3(4,5)
      have "\<exists>m \<in> set (finditer_entries (Suc pos) (18 + length t0) cs).
          fst m \<le> Suc pos + j' \<and> Suc pos + j' < span_end m" by simp
      then show ?thesis by (auto simp: j Some m)
    qed
  qed
qed

lemma entry_here_text:
  assumes "entry_here x = Some (d, t)"
  shows "x = d @ '' - Tooth '' @ t @ drop (19 + length t) x
       \<and> date_shape d \<and> list_all is_digit t \<and> (length t = 1 \<or> length t = 2)"
proof -
  from assms have len: "20 \<le> length x"
    and d: "d = take 10 x"
    and dig: "list_all is_digit (take 4 x)" "x ! 4 = CHR ''-''" "is_digit (x ! 5)"
      "is_digit (x ! 6)" "x ! 7 = CHR ''-''" "is_digit (x ! 8)" "is_digit (x ! 9)"
    and mid: "take 9 (drop 10 x) = '' - Tooth ''"
    and d19: "is_digit (x ! 19)"
    and t: "t = (if 21 \<le> length x \<and> is_digit (x ! 20) then [x ! 19, x ! 20] else [x ! 19])"
    by (auto simp: entry_here_def split: if_splits)
  have shape: "date_shape d"
    using len dig by (simp add: date_shape_def d min_def)
  have "take 10 x @ take 9 (drop 10 x) @ drop 19 x
          = take 10 x @ (take 9 (drop 10 x) @ drop 9 (drop 10 x))" by simp
  also have "\<dots> = x" by (simp only: append_take_drop_id)
  finally have 1: "x = take 10 x @ take 9 (drop 10 x) @ drop 19 x" by simp
  have 2: "drop 19 x = x ! 19 # drop 20 x"
    using len by (simp add: Cons_nth_drop_Suc [symmetric])
  show ?thesis
  proof (cases "21 \<le> length x \<and> is_digit (x ! 20)")
    case True
    then have 3: "drop 20 x = x ! 20 # drop 21 x"
      by (simp add: Cons_nth_drop_Suc [symmetric])
    from True t have t2: "t = [x ! 19, x ! 20]" by simp
    have "x = d @ '' - Tooth '' @ t @ drop 21 x"
      using 1 unfolding 2 3 d t2 mid by simp
    then show ?thesis using shape d19 True by (simp add: t2)
  next
    case False
    with t have t1: "t = [x ! 19]" by simp
    have "x = d @ '' - Tooth '' @ t @ drop 20 x"
      using 1 unfolding 2 d t1 mid by simp
    then show ?thesis using shape d19 by (simp add: t1)
  qed
qed

lemma text_entry_here:
  assumes x: "x = d @ '' - Tooth '' @ t @ rest"
    and shape: "date_shape d" and t: "t \<noteq> []" "list_all is_digit t"
  shows "entry_here x \<noteq> None"
proof -
  from shape have ld: "length d = 10" by (simp add: date_shape_def)
  from t obtain a t' where t': "t = a # t'" and a: "is_digit a" by (cases t) auto
  have take10: "take 10 x = d" using ld by (simp add: x)
  have drop10: "drop 10 x = '' - Tooth '' @ t @ rest" using ld by (simp add: x)
  have n: "x ! n = d ! n" if "n < 10" for n using that ld by (simp add: x nth_append)
  have "take 4 x = take 4 d" using ld by (simp add: x)
  moreover have "x ! 19 = a"
    using ld by (simp add: x nth_append t')
  moreover have "20 \<le> length x" using ld by (simp add: x t')
  ultimately show ?thesis
    using shape a drop10 by (simp add: entry_here_def date_shape_def n)
qed

lemma with_dates_Inr:
  "with_dates es = Inr r \<longleftrightarrow>
     list_all2 (\<lambda>e p. strptime (fst e) = Inr (fst p) \<and> snd p = snd e) es r"
proof (induction es arbitrary: r)
  case Nil
  show ?case by auto
next
  case (Cons e es)
  obtain d t where e: "e = (d, t)" by (cases e)
  show ?case
    by (auto simp: e list_all2_Cons1 Cons.IH [symmetric] split: sum.splits)
qed

lemma with_dates_Inl:
  "with_dates es = Inl err \<Longrightarrow>
     err = ValueError \<and> (\<exists>e \<in> set es. strptime (fst e) = Inl ValueError)"
proof (induction es)
  case Nil
  then show ?case by simp
next
  case (Cons e es)
  obtain d t where e: "e = (d, t)" by (cases e)
  from Cons show ?case
    by (auto simp: e split: sum.splits dest: strptime_error)
qed

text \<open>
  A match of the pattern at a position is what \<open>entry_here\<close> finds there, and the
  reported matches are the only list that is in the order of the text, without
  overlap, made of matches of the pattern, and covering every match.
\<close>

lemma entry_here_length:
  assumes "entry_here x = Some (d, t)"
  shows "length t = (if 20 < length x \<and> is_digit (x ! 20) then 2 else 1)"
  using assms by (auto simp: entry_here_def split: if_splits)

lemma text_entry_here_eq:
  assumes x: "x = d @ '' - Tooth '' @ t @ rest"
    and shape: "date_shape d" and dig: "list_all is_digit t"
    and greedy: "length t = (if 20 < length x \<and> is_digit (x ! 20) then 2 else 1)"
  shows "entry_here x = Some (d, t)"
proof -
  from shape have ld: "length d = 10" by (simp add: date_shape_def)
  have take10: "take 10 x = d" using ld by (simp add: x)
  have drop10: "drop 10 x = '' - Tooth '' @ t @ rest" using ld by (simp add: x)
  have n: "x ! n = d ! n" if "n < 10" for n using that ld by (simp add: x nth_append)
  have take4: "take 4 x = take 4 d" using ld by (simp add: x)
  show ?thesis
  proof (cases "20 < length x \<and> is_digit (x ! 20)")
    case True
    with greedy have "length t = 2" by simp
    then obtain a b where t: "t = [a, b]" unfolding length_2_conv by blast
    from dig have ab: "is_digit a" "is_digit b" by (simp_all add: t)
    have "x ! 19 = a" "x ! 20 = b" "21 \<le> length x"
      using ld by (simp_all add: x nth_append t)
    then show ?thesis
      using shape ab drop10 take10 take4
      by (simp add: entry_here_def date_shape_def n t)
  next
    case False
    with greedy have "length t = 1" by simp
    then obtain a where t: "t = [a]" unfolding length_1_conv by blast
    from dig have a: "is_digit a" by (simp add: t)
    have x19: "x ! 19 = a" and len: "20 \<le> length x"
      using ld by (simp_all add: x nth_append t)
    from False have no2: "\<not> (21 \<le> length x \<and> is_digit (x ! 20))" by auto
    show ?thesis
      using shape a drop10 take10 take4 x19 len no2
      by (simp add: entry_here_def date_shape_def n t)
  qed
qed

lemma second_digit_position:
  "(20 < length (drop i s) \<and> is_digit (drop i s ! 20))
     = (i + 20 < length s \<and> is_digit (s ! (i + 20)))"
proof (cases "i + 20 < length s")
  case True
  then have "drop i s ! 20 = s ! (i + 20)" by simp
  with True show ?thesis by auto
next
  case False
  then show ?thesis by auto
qed

lemma matches_at_iff:
  "matches_at s (i, d, t) \<longleftrightarrow> entry_here (drop i s) = Some (d, t)"
proof
  assume w: "matches_at s (i, d, t)"
  then have x: "drop i s = d @ '' - Tooth '' @ t @ drop (i + 19 + length t) s"
    and shape: "date_shape d" and dig: "list_all is_digit t"
    and g: "length t = (if i + 20 < length s \<and> is_digit (s ! (i + 20)) then 2 else 1)"
    by (simp_all add: matches_at_def)
  from g have "length t
      = (if 20 < length (drop i s) \<and> is_digit (drop i s ! 20) then 2 else 1)"
    unfolding second_digit_position .
  with x shape dig show "entry_here (drop i s) = Some (d, t)"
    by (rule text_entry_here_eq)
next
  assume e: "entry_here (drop i s) = Some (d, t)"
  have dd: "drop (19 + length t) (drop i s) = drop (i + 19 + length t) s"
    by (simp add: add.commute add.left_commute)
  from entry_here_text [OF e]
  have x: "drop i s = d @ '' - Tooth '' @ t @ drop (i + 19 + length t) s"
    and p: "date_shape d" "list_all is_digit t"
    unfolding dd by blast+
  from entry_here_length [OF e]
  have g: "length t = (if i + 20 < length s \<and> is_digit (s ! (i + 20)) then 2 else 1)"
    unfolding second_digit_position .
  show "matches_at s (i, d, t)"
    unfolding matches_at_def prod.case using x p g by blast
qed

lemma entry_here_Nil: "entry_here [] = None"
  by (simp add: entry_here_def)

lemma drop_shift:
  assumes "pos < i"
  shows "drop (i - pos) (c # cs) = drop (i - Suc pos) cs"
proof -
  from assms have "i - pos = Suc (i - Suc pos)" by arith
  then show ?thesis by simp
qed

lemma finditer_unique:
  assumes "sorted_wrt (\<lambda>m m'. span_end m \<le> fst m') L"
    and "\<And>i d t. (i, d, t) \<in> set L \<Longrightarrow>
           pos + k \<le> i \<and> entry_here (drop (i - pos) s) = Some (d, t)"
    and "\<And>j. k \<le> j \<Longrightarrow> j < length s \<Longrightarrow> entry_here (drop j s) \<noteq> None \<Longrightarrow>
           \<exists>m \<in> set L. fst m \<le> pos + j \<and> pos + j < span_end m"
  shows "L = finditer_entries pos k s"
  using assms
proof (induction pos k s arbitrary: L rule: finditer_entries.induct)
  case (1 pos k)
  have "L = []"
  proof (cases L)
    case Nil
    then show ?thesis .
  next
    case (Cons m L')
    obtain i d t where "m = (i, d, t)" by (cases m)
    with Cons 1(2) [of i d t] show ?thesis by (simp add: entry_here_Nil)
  qed
  then show ?case by simp
next
  case (2 pos k c cs)
  have b: "Suc pos + k \<le> i \<and> entry_here (drop (i - Suc pos) cs) = Some (d, t)"
    if "(i, d, t) \<in> set L" for i d t
  proof -
    from 2(3) [OF that] have i: "pos + Suc k \<le> i"
      and e: "entry_here (drop (i - pos) (c # cs)) = Some (d, t)" by simp_all
    from i have "pos < i" by simp
    from e drop_shift [OF this, of c cs] i show ?thesis by simp
  qed
  have c: "\<exists>m \<in> set L. fst m \<le> Suc pos + j \<and> Suc pos + j < span_end m"
    if "k \<le> j" "j < length cs" "entry_here (drop j cs) \<noteq> None" for j
    using 2(4) [of "Suc j"] that by simp
  from 2(1) [OF 2(2) b c] show ?case by simp
next
  case (3 pos c cs)
  show ?case
  proof (cases "entry_here (c # cs)")
    case None
    have b: "Suc pos + 0 \<le> i \<and> entry_here (drop (i - Suc pos) cs) = Some (d, t)"
      if "(i, d, t) \<in> set L" for i d t
    proof -
      from 3(4) [OF that] have i: "pos \<le> i"
        and e: "entry_here (drop (i - pos) (c # cs)) = Some (d, t)" by simp_all
      have "i \<noteq> pos" using e None by auto
      with i have "pos < i" by simp
      from e drop_shift [OF this, of c cs] \<open>pos < i\<close> show ?thesis by simp
    qed
    have c: "\<exists>m \<in> set L. fst m \<le> Suc pos + j \<and> Suc pos + j < span_end m"
      if "0 \<le> j" "j < length cs" "entry_here (drop j cs) \<noteq> None" for j
      using 3(5) [of "Suc j"] that by simp
    from 3(1) [OF None 3(3) b c] show ?thesis by (simp add: None)
  next
    case (Some m0)
    obtain d0 t0 where m0: "m0 = (d0, t0)" by (cases m0)
    have e0: "entry_here (drop 0 (c # cs)) \<noteq> None" by (simp add: Some)
    from 3(5) [of 0, OF _ _ e0] obtain m where m: "m \<in> set L"
      and mp: "fst m \<le> pos" "pos < span_end m" by auto
    obtain i d t where mi: "m = (i, d, t)" by (cases m)
    from 3(4) [of i d t] m mi have "pos \<le> i"
      and "entry_here (drop (i - pos) (c # cs)) = Some (d, t)" by simp_all
    with mp mi have "i = pos" and "(d, t) = (d0, t0)" by (simp_all add: Some m0)
    with m mi have head_in: "(pos, d0, t0) \<in> set L" by simp
    then obtain m1 L' where L: "L = m1 # L'" by (cases L) auto
    have m1: "m1 = (pos, d0, t0)"
    proof (rule ccontr)
      assume ne: "m1 \<noteq> (pos, d0, t0)"
      with head_in L have "(pos, d0, t0) \<in> set L'" by simp
      with 3(3) L have le: "span_end m1 \<le> pos" by auto
      obtain i1 d1 t1 where m1': "m1 = (i1, d1, t1)" by (cases m1)
      from 3(4) [of i1 d1 t1] L m1' have "pos \<le> i1" by simp
      then have "pos < span_end m1" by (simp add: span_end_def m1')
      with le show False by simp
    qed
    from 3(3) L have sorted': "sorted_wrt (\<lambda>m m'. span_end m \<le> fst m') L'"
      and after: "\<And>m'. m' \<in> set L' \<Longrightarrow> span_end m1 \<le> fst m'" by simp_all
    have b: "Suc pos + (18 + length t0) \<le> i' \<and> entry_here (drop (i' - Suc pos) cs) = Some (d', t')"
      if "(i', d', t') \<in> set L'" for i' d' t'
    proof -
      from after [OF that] have i: "pos + 19 + length t0 \<le> i'"
        by (simp add: m1 span_end_def)
      then have "pos < i'" by simp
      from that L have "(i', d', t') \<in> set L" by simp
      from 3(4) [OF this] have "entry_here (drop (i' - pos) (c # cs)) = Some (d', t')" by simp
      with drop_shift [OF \<open>pos < i'\<close>, of c cs] i show ?thesis by simp
    qed
    have c: "\<exists>m \<in> set L'. fst m \<le> Suc pos + j \<and> Suc pos + j < span_end m"
      if "18 + length t0 \<le> j" "j < length cs" "entry_here (drop j cs) \<noteq> None" for j
    proof -
      from 3(5) [of "Suc j"] that obtain m' where m': "m' \<in> set L"
        and r: "fst m' \<le> pos + Suc j" "pos + Suc j < span_end m'" by auto
      have "m' \<noteq> m1"
      proof
        assume "m' = m1"
        with r(2) have "pos + Suc j < pos + 19 + length t0" by (simp add: m1 span_end_def)
        with that(1) show False by simp
      qed
      with m' L have "m' \<in> set L'" by simp
      with r show ?thesis by auto
    qed
    from 3(2) [OF Some m0 [symmetric] sorted' b c]
    have "L' = finditer_entries (Suc pos) (18 + length t0) cs" .
    then show ?thesis by (simp add: L m1 Some m0)
  qed
qed

text \<open>
  Claim C6 says that the parser returns a list for every input and gives the tooth as
  a two-digit string. A matched date that is no calendar date makes the parser raise
  ValueError, and a tooth written with one digit is returned with one digit.
\<close>

theorem C6_parser_raises_and_short_tooth:
  "extract_missing_teeth_with_dates (Some ''2021-13-45 - Tooth 14'') = Inl ValueError
   \<and> extract_missing_teeth_with_dates (Some ''2021-03-04 - Tooth 9'')
       = Inr [((2021, 3, 4), ''9'')]"
  by code_simp

text \<open>
  Claim C6, as the code has it. A value that is not a string gives the empty list. For
  a string, the scan reports matches of the pattern at increasing positions that do
  not overlap: each is a date text, the words " - Tooth " and the tooth as written,
  with two digits when a second digit follows and with one digit otherwise. Every
  place of the text where a date text, the words " - Tooth " and a digit stand is
  inside a reported match, and the reported matches are the only list of matches of
  the pattern that do not overlap, stand in the order of the text and leave no match
  of the pattern outside them: the text fixes the positions, the dates and the teeth.
  The parser returns the (date, tooth) pairs of the reported matches in that order
  when every date is a calendar date, and raises ValueError when one is not.
\<close>

theorem C6_matches_in_text_order:
  "extract_missing_teeth_with_dates None = Inr []
   \<and> (case extract_missing_teeth_with_dates (Some s) of
         Inr es \<Rightarrow>
           list_all2 (\<lambda>m e. strptime (fst (snd m)) = Inr (fst e) \<and> snd e = snd (snd m))
             (finditer_entries 0 0 s) es
       | Inl err \<Rightarrow>
           err = ValueError
           \<and> (\<exists>m \<in> set (finditer_entries 0 0 s). strptime (fst (snd m)) = Inl ValueError))
   \<and> sorted_wrt (\<lambda>m m'. span_end m \<le> fst m') (finditer_entries 0 0 s)
   \<and> (\<forall>m \<in> set (finditer_entries 0 0 s). matches_at s m)
   \<and> (\<forall>j d t rest.
         drop j s = d @ '' - Tooth '' @ t @ rest \<and> date_shape d \<and> t \<noteq> [] \<and> list_all is_digit t
         \<longrightarrow> (\<exists>m \<in> set (finditer_entries 0 0 s). fst m \<le> j \<and> j < span_end m))
   \<and> (\<forall>L. sorted_wrt (\<lambda>m m'. span_end m \<le> fst m') L
           \<and> (\<forall>m \<in> set L. matches_at s m)
           \<and> (\<forall>j d t. matches_at s (j, d, t)
                \<longrightarrow> (\<exists>m \<in> set L. fst m \<le> j \<and> j < span_end m))
         \<longrightarrow> L = finditer_entries 0 0 s)"
proof -
  have a: "extract_missing_teeth_with_dates None = Inr []"
    by (simp add: extract_missing_teeth_with_dates_def)
  have b: "case extract_missing_teeth_with_dates (Some s) of
         Inr es \<Rightarrow>
           list_all2 (\<lambda>m e. strptime (fst (snd m)) = Inr (fst e) \<and> snd e = snd (snd m))
             (finditer_entries 0 0 s) es
       | Inl err \<Rightarrow>
           err = ValueError
           \<and> (\<exists>m \<in> set (finditer_entries 0 0 s). strptime (fst (snd m)) = Inl ValueError)"
  proof (cases "with_dates (findall_entries s)")
    case (Inl err)
    from with_dates_Inl [OF Inl]
    have "err = ValueError"
      and "\<exists>e \<in> set (map snd (finditer_entries 0 0 s)). strptime (fst e) = Inl ValueError"
      by (simp_all add: findall_entries_def)
    then have "err = ValueError
        \<and> (\<exists>m \<in> set (finditer_entries 0 0 s). strptime (fst (snd m)) = Inl ValueError)"
      by auto
    then show ?thesis
      by (simp add: extract_missing_teeth_with_dates_def Inl)
  next
    case (Inr es)
    then have "list_all2 (\<lambda>e p. strptime (fst e) = Inr (fst p) \<and> snd p = snd e)
        (map snd (finditer_entries 0 0 s)) es"
      by (simp add: with_dates_Inr findall_entries_def)
    then show ?thesis
      by (simp add: extract_missing_teeth_with_dates_def Inr list_all2_map1)
  qed
  have c: "sorted_wrt (\<lambda>m m'. span_end m \<le> fst m') (finditer_entries 0 0 s)"
    by (rule finditer_disjoint)
  have d: "matches_at s m" if "m \<in> set (finditer_entries 0 0 s)" for m
  proof -
    obtain i dt t where m: "m = (i, dt, t)" by (cases m)
    from that finditer_sound [of i dt t 0 0 s]
    have "entry_here (drop i s) = Some (dt, t)" by (simp add: m)
    then show ?thesis unfolding m matches_at_iff .
  qed
  have e: "\<exists>m \<in> set (finditer_entries 0 0 s). fst m \<le> j \<and> j < span_end m"
    if "drop j s = dt @ '' - Tooth '' @ t @ rest" "date_shape dt" "t \<noteq> []" "list_all is_digit t"
    for j dt t rest
  proof -
    from that have h: "entry_here (drop j s) \<noteq> None" by (rule text_entry_here)
    then have "drop j s \<noteq> []" by (auto simp: entry_here_def)
    then have "j < length s" by simp
    from finditer_covers [OF _ this h, of 0 0] show ?thesis by simp
  qed
  have f: "L = finditer_entries 0 0 s"
    if srt: "sorted_wrt (\<lambda>m m'. span_end m \<le> fst m') L"
      and all: "\<forall>m \<in> set L. matches_at s m"
      and cov: "\<forall>j d t. matches_at s (j, d, t)
                \<longrightarrow> (\<exists>m \<in> set L. fst m \<le> j \<and> j < span_end m)"
    for L
  proof (rule finditer_unique [OF srt])
    fix i dt t assume "(i, dt, t) \<in> set L"
    with all have "matches_at s (i, dt, t)" by blast
    then have "entry_here (drop i s) = Some (dt, t)" unfolding matches_at_iff .
    then show "0 + 0 \<le> i \<and> entry_here (drop (i - 0) s) = Some (dt, t)" by simp
  next
    fix j assume "entry_here (drop j s) \<noteq> None"
    then obtain dt t where "entry_here (drop j s) = Some (dt, t)" by auto
    then have "matches_at s (j, dt, t)" unfolding matches_at_iff .
    with cov have "\<exists>m \<in> set L. fst m \<le> j \<and> j < span_end m" by blast
    then show "\<exists>m \<in> set L. fst m \<le> 0 + j \<and> 0 + j < span_end m" by simp
  qed
  from a b c d e f show ?thesis by blast
qed

text \<open>
  The log text with two entries, the later date first: the codes T14 and T9 are
  rewritten, the pairs come in the order of the text, and the tooth 14 is not reported
  as the one digit 1.
\<close>

theorem C6_witness:
  "replace_tooth_codes log_text
     = ''2021-03-04 - Tooth 14 NOTES - Missing<br>2020-05-01 - Tooth 9 NOTES - Missing''
   \<and> finditer_entries 0 0 (replace_tooth_codes log_text)
     = [(0, ''2021-03-04'', ''14''), (41, ''2020-05-01'', ''9'')]
   \<and> matches_at (replace_tooth_codes log_text) (0, ''2021-03-04'', ''14'')
   \<and> matches_at (replace_tooth_codes log_text) (41, ''2020-05-01'', ''9'')
   \<and> matches_at (replace_tooth_codes log_text) (0, ''2021-03-04'', ''1'') = False
   \<and> missing_log_parser (Some log_text) = Inr [((2021, 3, 4), ''14''), ((2020, 5, 1), ''9'')]
   \<and> missing_log_parser None = Inr []"
proof -
  have r: "replace_tooth_codes log_text
     = ''2021-03-04 - Tooth 14 NOTES - Missing<br>2020-05-01 - Tooth 9 NOTES - Missing''"
    by code_simp
  have f: "finditer_entries 0 0 (replace_tooth_codes log_text)
     = [(0, ''2021-03-04'', ''14''), (41, ''2020-05-01'', ''9'')]"
    by code_simp
  have p: "missing_log_parser (Some log_text) = Inr [((2021, 3, 4), ''14''), ((2020, 5, 1), ''9'')]"
    by code_simp
  have n: "missing_log_parser None = Inr []"
    by (simp add: missing_log_parser_def extract_missing_teeth_with_dates_def)
  have o: "matches_at (replace_tooth_codes log_text) (0, ''2021-03-04'', ''1'') = False"
    by code_simp
  from C6_matches_in_text_order [of "replace_tooth_codes log_text"]
  have "\<forall>m \<in> set (finditer_entries 0 0 (replace_tooth_codes log_text)).
      matches_at (replace_tooth_codes log_text) m" by blast
  then have "matches_at (replace_tooth_codes log_text) (0, ''2021-03-04'', ''14'')
      \<and> matches_at (replace_tooth_codes log_text) (41, ''2020-05-01'', ''9'')"
    unfolding f by simp
  with r f p n o show ?thesis by blast
qed

section \<open>Properties of the cell pattern\<close>

lemma nullable_lang: "nullable r \<longleftrightarrow> [] \<in> lang r"
  by (induction r) (auto intro: star_empty)

lemma star_Cons_split:
  assumes "x \<in> star A" and "x = c # w"
  shows "\<exists>u v. w = u @ v \<and> c # u \<in> A \<and> v \<in> star A"
  using assms
proof (induction arbitrary: w rule: star.induct)
  case star_empty
  then show ?case by simp
next
  case (star_more u v)
  show ?case
  proof (cases u)
    case Nil
    with star_more show ?thesis by simp
  next
    case (Cons a u')
    with star_more(1,2,4) show ?thesis by auto
  qed
qed

lemma star_Cons_iff:
  "c # w \<in> star A \<longleftrightarrow> (\<exists>u v. w = u @ v \<and> c # u \<in> A \<and> v \<in> star A)"
proof
  assume "c # w \<in> star A"
  then show "\<exists>u v. w = u @ v \<and> c # u \<in> A \<and> v \<in> star A"
    using star_Cons_split by blast
next
  assume "\<exists>u v. w = u @ v \<and> c # u \<in> A \<and> v \<in> star A"
  then obtain u v where "w = u @ v" "c # u \<in> A" "v \<in> star A" by blast
  then show "c # w \<in> star A" using star_more [of "c # u" A v] by simp
qed

lemma deriv_lang: "w \<in> lang (deriv c r) \<longleftrightarrow> c # w \<in> lang r"
proof (induction r arbitrary: w)
  case Nothing
  show ?case by simp
next
  case Empty
  show ?case by simp
next
  case (Class k)
  show ?case by auto
next
  case (Seq r s)
  have "c # w \<in> lang (Seq r s) \<longleftrightarrow>
      (\<exists>u v. w = u @ v \<and> c # u \<in> lang r \<and> v \<in> lang s) \<or> ([] \<in> lang r \<and> c # w \<in> lang s)"
    by (auto simp: Cons_eq_append_conv) 
  then show ?case
    by (auto simp: Seq.IH nullable_lang)
next
  case (Alt r s)
  then show ?case by simp
next
  case (Star r)
  show ?case by (auto simp: Star.IH star_Cons_iff)
qed

lemma fullmatch_lang: "fullmatch r s \<longleftrightarrow> s \<in> lang r"
  by (induction s arbitrary: r) (simp_all add: nullable_lang deriv_lang)

lemma star_class: "star {[c] | c. P c} = {w. list_all P w}"
proof
  show "star {[c] | c. P c} \<subseteq> {w. list_all P w}"
  proof
    fix w assume "w \<in> star {[c] | c. P c}"
    then show "w \<in> {w. list_all P w}"
      by (induction rule: star.induct) auto
  qed
next
  show "{w. list_all P w} \<subseteq> star {[c] | c. P c}"
  proof
    fix w assume "w \<in> {w. list_all P w}"
    then have "list_all P w" by simp
    then show "w \<in> star {[c] | c. P c}"
    proof (induction w)
      case Nil
      show ?case by (rule star_empty)
    next
      case (Cons c w)
      then have "[c] \<in> {[c] | c. P c}" and "w \<in> star {[c] | c. P c}" by auto
      then have "[c] @ w \<in> star {[c] | c. P c}" by (rule star_more)
      then show ?case by simp
    qed
  qed
qed

lemma lang_star_class: "lang (Star (Class k)) = {w. list_all (in_class k) w}"
  by (simp add: star_class)

lemma in_class_Digit: "in_class Digit = is_digit"
  by (rule ext) simp

lemma in_class_Whitespace: "in_class Whitespace = is_space"
  by (rule ext) simp

lemma lang_class_seq:
  "w \<in> lang (Seq (Class k) r) \<longleftrightarrow> (\<exists>c v. w = c # v \<and> in_class k c \<and> v \<in> lang r)"
proof
  assume "w \<in> lang (Seq (Class k) r)"
  then obtain u v where "w = u @ v" "u \<in> lang (Class k)" "v \<in> lang r" by auto
  then show "\<exists>c v. w = c # v \<and> in_class k c \<and> v \<in> lang r" by auto
next
  assume "\<exists>c v. w = c # v \<and> in_class k c \<and> v \<in> lang r"
  then obtain c v where "w = [c] @ v" "[c] \<in> lang (Class k)" "v \<in> lang r" by auto
  then show "w \<in> lang (Seq (Class k) r)" unfolding lang.simps by blast
qed

lemma lang_rep_1_2_class:
  "w \<in> lang (rep_1_2 (Class k)) \<longleftrightarrow> (length w = 1 \<or> length w = 2) \<and> list_all (in_class k) w"
  unfolding rep_1_2_def lang_class_seq length_1_conv length_2_conv by auto

lemma lang_rep_plus_class:
  "w \<in> lang (rep_plus (Class k)) \<longleftrightarrow> w \<noteq> [] \<and> list_all (in_class k) w"
  unfolding rep_plus_def lang_class_seq lang_star_class by (cases w) auto

lemma lang_digits: "w \<in> lang (rep_1_2 (Class Digit)) \<longleftrightarrow> small_int w"
  by (simp add: lang_rep_1_2_class small_int_def in_class_Digit)

lemma lang_gap_1_2: "w \<in> lang (rep_1_2 (Class Whitespace)) \<longleftrightarrow> gap_1_2 w"
  by (simp add: lang_rep_1_2_class gap_1_2_def in_class_Whitespace)

lemma lang_gap_1_more: "w \<in> lang (rep_plus (Class Whitespace)) \<longleftrightarrow> gap_1_more w"
  by (simp add: lang_rep_plus_class gap_1_more_def in_class_Whitespace)

lemma lang_spaces: "w \<in> lang (Star (Class Whitespace)) \<longleftrightarrow> list_all is_space w"
  by (simp add: star_class in_class_Whitespace)

lemma seq_elim:
  assumes "w \<in> lang (Seq r s)"
  obtains u v where "w = u @ v" and "u \<in> lang r" and "v \<in> lang s"
  using assms by auto

lemma seq_intro: "u \<in> lang r \<Longrightarrow> v \<in> lang s \<Longrightarrow> u @ v \<in> lang (Seq r s)"
  by auto

lemma three_integersI:
  "small_int a \<Longrightarrow> gap g1 \<Longrightarrow> small_int b \<Longrightarrow> gap g2 \<Longrightarrow> small_int c
     \<Longrightarrow> three_integers gap (a @ g1 @ b @ g2 @ c)"
  unfolding three_integers_def by blast

lemma three_integersE:
  assumes "three_integers gap m"
  obtains a g1 b g2 c where "m = a @ g1 @ b @ g2 @ c"
    and "small_int a" and "gap g1" and "small_int b" and "gap g2" and "small_int c"
  using assms unfolding three_integers_def by blast

lemma lang_pockets:
  "s \<in> lang (pattern Pockets) \<longleftrightarrow>
     (\<exists>w1 m w2. s = w1 @ m @ w2 \<and> list_all is_space w1 \<and> three_integers gap_1_2 m
        \<and> list_all is_space w2)"
proof
  assume "s \<in> lang (pattern Pockets)"
  then obtain w1 r1 where 1: "s = w1 @ r1" "w1 \<in> lang (Star (Class Whitespace))"
    and r1: "r1 \<in> lang (Seq (rep_1_2 (Class Digit))
         (Seq (rep_2 (Seq (rep_1_2 (Class Whitespace)) (rep_1_2 (Class Digit))))
           (Star (Class Whitespace))))"
    unfolding pattern.simps by (rule seq_elim)
  from r1 obtain a r2 where 2: "r1 = a @ r2" "a \<in> lang (rep_1_2 (Class Digit))"
    and r2: "r2 \<in> lang (Seq (rep_2 (Seq (rep_1_2 (Class Whitespace)) (rep_1_2 (Class Digit))))
           (Star (Class Whitespace)))"
    by (rule seq_elim)
  from r2 [unfolded rep_2_def] obtain x w2 where 3: "r2 = x @ w2" "w2 \<in> lang (Star (Class Whitespace))"
    and x: "x \<in> lang (Seq (Seq (rep_1_2 (Class Whitespace)) (rep_1_2 (Class Digit)))
                     (Seq (rep_1_2 (Class Whitespace)) (rep_1_2 (Class Digit))))"
    by (rule seq_elim)
  from x obtain x1 x2 where 4: "x = x1 @ x2"
    and x1: "x1 \<in> lang (Seq (rep_1_2 (Class Whitespace)) (rep_1_2 (Class Digit)))"
    and x2: "x2 \<in> lang (Seq (rep_1_2 (Class Whitespace)) (rep_1_2 (Class Digit)))"
    by (rule seq_elim)
  from x1 obtain g1 b where 5: "x1 = g1 @ b" "g1 \<in> lang (rep_1_2 (Class Whitespace))"
    "b \<in> lang (rep_1_2 (Class Digit))" by (rule seq_elim)
  from x2 obtain g2 c where 6: "x2 = g2 @ c" "g2 \<in> lang (rep_1_2 (Class Whitespace))"
    "c \<in> lang (rep_1_2 (Class Digit))" by (rule seq_elim)
  have "s = w1 @ (a @ g1 @ b @ g2 @ c) @ w2"
    by (simp add: 1 2 3 4 5 6)
  moreover have "three_integers gap_1_2 (a @ g1 @ b @ g2 @ c)"
    using 2(2) 5(2,3) 6(2,3) unfolding lang_digits lang_gap_1_2 by (rule three_integersI)
  moreover have "list_all is_space w1" "list_all is_space w2"
    using 1(2) 3(2) by (simp_all only: lang_spaces)
  ultimately show "\<exists>w1 m w2. s = w1 @ m @ w2 \<and> list_all is_space w1
      \<and> three_integers gap_1_2 m \<and> list_all is_space w2" by blast
next
  assume "\<exists>w1 m w2. s = w1 @ m @ w2 \<and> list_all is_space w1 \<and> three_integers gap_1_2 m
        \<and> list_all is_space w2"
  then obtain w1 m w2 where s: "s = w1 @ m @ w2" and w: "list_all is_space w1" "list_all is_space w2"
    and m: "three_integers gap_1_2 m" by blast
  from m obtain a g1 b g2 c where m': "m = a @ g1 @ b @ g2 @ c"
    and p: "small_int a" "gap_1_2 g1" "small_int b" "gap_1_2 g2" "small_int c"
    by (rule three_integersE)
  have x1: "g1 @ b \<in> lang (Seq (rep_1_2 (Class Whitespace)) (rep_1_2 (Class Digit)))"
    using p by (intro seq_intro) (simp_all only: lang_digits lang_gap_1_2)
  have x2: "g2 @ c \<in> lang (Seq (rep_1_2 (Class Whitespace)) (rep_1_2 (Class Digit)))"
    using p by (intro seq_intro) (simp_all only: lang_digits lang_gap_1_2)
  have "w1 @ a @ ((g1 @ b) @ (g2 @ c)) @ w2 \<in> lang (pattern Pockets)"
    unfolding pattern.simps rep_2_def
    using w p by (intro seq_intro) (simp_all only: lang_digits lang_spaces lang_gap_1_2)
  then show "s \<in> lang (pattern Pockets)" by (simp add: s m')
qed

lemma lang_recessions:
  "s \<in> lang (pattern Recessions) \<longleftrightarrow>
     (\<exists>w1 m w2. s = w1 @ m @ w2 \<and> list_all is_space w1 \<and> three_integers gap_1_more m
        \<and> list_all is_space w2)"
proof
  assume "s \<in> lang (pattern Recessions)"
  then obtain w1 r1 where 1: "s = w1 @ r1" "w1 \<in> lang (Star (Class Whitespace))"
    and r1: "r1 \<in> lang (Seq (rep_1_2 (Class Digit))
         (Seq (rep_plus (Class Whitespace))
           (Seq (rep_1_2 (Class Digit))
             (Seq (rep_plus (Class Whitespace))
               (Seq (rep_1_2 (Class Digit))
                 (Star (Class Whitespace)))))))"
    unfolding pattern.simps by (rule seq_elim)
  from r1 obtain a r2 where 2: "r1 = a @ r2" "a \<in> lang (rep_1_2 (Class Digit))"
    and r2: "r2 \<in> lang (Seq (rep_plus (Class Whitespace))
           (Seq (rep_1_2 (Class Digit))
             (Seq (rep_plus (Class Whitespace))
               (Seq (rep_1_2 (Class Digit))
                 (Star (Class Whitespace))))))"
    by (rule seq_elim)
  from r2 obtain g1 r3 where 3: "r2 = g1 @ r3" "g1 \<in> lang (rep_plus (Class Whitespace))"
    and r3: "r3 \<in> lang (Seq (rep_1_2 (Class Digit))
             (Seq (rep_plus (Class Whitespace))
               (Seq (rep_1_2 (Class Digit))
                 (Star (Class Whitespace)))))"
    by (rule seq_elim)
  from r3 obtain b r4 where 4: "r3 = b @ r4" "b \<in> lang (rep_1_2 (Class Digit))"
    and r4: "r4 \<in> lang (Seq (rep_plus (Class Whitespace))
               (Seq (rep_1_2 (Class Digit))
                 (Star (Class Whitespace))))"
    by (rule seq_elim)
  from r4 obtain g2 r5 where 5: "r4 = g2 @ r5" "g2 \<in> lang (rep_plus (Class Whitespace))"
    and r5: "r5 \<in> lang (Seq (rep_1_2 (Class Digit)) (Star (Class Whitespace)))"
    by (rule seq_elim)
  from r5 obtain c w2 where 6: "r5 = c @ w2" "c \<in> lang (rep_1_2 (Class Digit))"
    "w2 \<in> lang (Star (Class Whitespace))"
    by (rule seq_elim)
  have "s = w1 @ (a @ g1 @ b @ g2 @ c) @ w2"
    by (simp add: 1 2 3 4 5 6)
  moreover have "three_integers gap_1_more (a @ g1 @ b @ g2 @ c)"
    using 2(2) 3(2) 4(2) 5(2) 6(2) unfolding lang_digits lang_gap_1_more
    by (rule three_integersI)
  moreover have "list_all is_space w1" "list_all is_space w2"
    using 1(2) 6(3) by (simp_all only: lang_spaces)
  ultimately show "\<exists>w1 m w2. s = w1 @ m @ w2 \<and> list_all is_space w1
      \<and> three_integers gap_1_more m \<and> list_all is_space w2" by blast
next
  assume "\<exists>w1 m w2. s = w1 @ m @ w2 \<and> list_all is_space w1 \<and> three_integers gap_1_more m
        \<and> list_all is_space w2"
  then obtain w1 m w2 where s: "s = w1 @ m @ w2" and w: "list_all is_space w1" "list_all is_space w2"
    and m: "three_integers gap_1_more m" by blast
  from m obtain a g1 b g2 c where m': "m = a @ g1 @ b @ g2 @ c"
    and p: "small_int a" "gap_1_more g1" "small_int b" "gap_1_more g2" "small_int c"
    by (rule three_integersE)
  have "w1 @ a @ g1 @ b @ g2 @ c @ w2 \<in> lang (pattern Recessions)"
    unfolding pattern.simps
    using w p by (intro seq_intro) (simp_all only: lang_digits lang_spaces lang_gap_1_more)
  then show "s \<in> lang (pattern Recessions)" by (simp add: s m')
qed

lemma digit_not_space: "is_digit c \<Longrightarrow> \<not> is_space c"
  by (auto simp: is_digit_def is_space_def)

lemma small_int_ends:
  assumes "small_int a"
  shows "a \<noteq> []" and "\<not> is_space (hd a)" and "\<not> is_space (last a)"
proof -
  from assms show ne: "a \<noteq> []" by (auto simp: small_int_def)
  from assms have "\<forall>c \<in> set a. is_digit c" by (simp add: small_int_def list_all_iff)
  with ne show "\<not> is_space (hd a)" and "\<not> is_space (last a)"
    by (simp_all add: digit_not_space)
qed

lemma three_integers_ends:
  assumes "three_integers gap m"
  shows "m \<noteq> [] \<and> \<not> is_space (hd m) \<and> \<not> is_space (last m)"
proof -
  from assms obtain a g1 b g2 c where m: "m = a @ g1 @ b @ g2 @ c"
    and a: "small_int a" and c: "small_int c"
    by (rule three_integersE)
  from small_int_ends [OF a] small_int_ends [OF c] show ?thesis
    by (simp add: m)
qed

lemma strip_padded:
  assumes "list_all is_space w1" and "list_all is_space w2"
    and "m \<noteq> []" and "\<not> is_space (hd m)" and "\<not> is_space (last m)"
  shows "strip (w1 @ m @ w2) = m"
proof -
  from assms(3) obtain x m' where m: "m = x # m'" by (cases m) auto
  with assms(4) have x: "\<not> is_space x" by simp
  have 1: "dropWhile is_space (w1 @ m @ w2) = m @ w2"
    using assms(1) x by (simp add: dropWhile_append list_all_iff m)
  from assms(3) have "rev m \<noteq> []" by simp
  then obtain y r where r: "rev m = y # r" by (cases "rev m") auto
  then have "y = last m" using assms(3) by (metis hd_rev list.sel(1))
  with assms(5) have y: "\<not> is_space y" by simp
  have "dropWhile is_space (rev (m @ w2)) = rev m"
    using assms(2) y by (simp add: dropWhile_append list_all_iff r)
  then show ?thesis by (simp add: strip_def 1)
qed

lemma strip_decomp:
  "\<exists>w1 w2. s = w1 @ strip s @ w2 \<and> list_all is_space w1 \<and> list_all is_space w2"
proof -
  let ?u = "dropWhile is_space s"
  have 1: "s = takeWhile is_space s @ ?u" by simp
  have "rev (takeWhile is_space (rev ?u) @ dropWhile is_space (rev ?u)) = ?u"
    by (simp only: takeWhile_dropWhile_id rev_rev_ident)
  then have "rev (dropWhile is_space (rev ?u)) @ rev (takeWhile is_space (rev ?u)) = ?u"
    by (simp only: rev_append)
  then have 2: "?u = strip s @ rev (takeWhile is_space (rev ?u))"
    by (simp only: strip_def)
  have 3: "list_all is_space (takeWhile is_space s)"
    by (simp add: list_all_iff) (meson set_takeWhileD)
  have 4: "list_all is_space (rev (takeWhile is_space (rev ?u)))"
    by (simp add: list_all_iff) (meson set_takeWhileD)
  from 1 2 have "s = takeWhile is_space s @ strip s @ rev (takeWhile is_space (rev ?u))"
    by simp
  with 3 4 show ?thesis by blast
qed

lemma padded_iff_strip:
  "(\<exists>w1 m w2. s = w1 @ m @ w2 \<and> list_all is_space w1 \<and> three_integers gap m
        \<and> list_all is_space w2) \<longleftrightarrow> three_integers gap (strip s)"
proof
  assume "\<exists>w1 m w2. s = w1 @ m @ w2 \<and> list_all is_space w1 \<and> three_integers gap m
        \<and> list_all is_space w2"
  then obtain w1 m w2 where s: "s = w1 @ m @ w2" and w: "list_all is_space w1" "list_all is_space w2"
    and m: "three_integers gap m" by blast
  from three_integers_ends [OF m] w have "strip s = m"
    unfolding s by (intro strip_padded) simp_all
  with m show "three_integers gap (strip s)" by simp
next
  assume "three_integers gap (strip s)"
  with strip_decomp [of s]
  show "\<exists>w1 m w2. s = w1 @ m @ w2 \<and> list_all is_space w1 \<and> three_integers gap m
        \<and> list_all is_space w2" by blast
qed

lemma py_match_padded:
  assumes lang: "\<And>s. s \<in> lang r \<longleftrightarrow>
      (\<exists>w1 m w2. s = w1 @ m @ w2 \<and> list_all is_space w1 \<and> M m \<and> list_all is_space w2)"
  shows "py_match r s \<longleftrightarrow> s \<in> lang r"
proof -
  have "s \<in> lang r" if ne: "s \<noteq> []" and nl: "last s = CHR 0x0A" and b: "butlast s \<in> lang r"
  proof -
    from b obtain w1 m w2 where bs: "butlast s = w1 @ m @ w2"
      and w: "list_all is_space w1" "list_all is_space w2" and m: "M m"
      unfolding lang by blast
    from ne nl have "s = butlast s @ [CHR 0x0A]" by (metis append_butlast_last_id)
    then have "s = w1 @ m @ (w2 @ [CHR 0x0A])" by (simp add: bs)
    moreover have "list_all is_space (w2 @ [CHR 0x0A])"
      using w(2) by (simp add: is_space_def)
    ultimately show ?thesis unfolding lang using w(1) m by blast
  qed
  then show ?thesis by (auto simp: py_match_def fullmatch_lang)
qed

lemma pockets_well_formed:
  "pattern_match Pockets s \<longleftrightarrow> three_integers gap_1_2 (strip s)"
  unfolding pattern_match_def py_match_padded [of "pattern Pockets", OF lang_pockets]
  by (simp only: lang_pockets padded_iff_strip)

lemma recessions_well_formed:
  "pattern_match Recessions s \<longleftrightarrow> three_integers gap_1_more (strip s)"
  unfolding pattern_match_def py_match_padded [of "pattern Recessions", OF lang_recessions]
  by (simp only: lang_recessions padded_iff_strip)

text \<open>
  Claim C7 says that in both pipelines a text is well-formed exactly when, trimmed, it
  is three integers of one or two digits separated by one or two spaces. The pattern
  of the recessions script has \<^verbatim>\<open>\s+\<close> between the integers: it accepts three
  spaces.
\<close>

theorem C7_recessions_accepts_wider_gap:
  "pattern_match Recessions ''9   10 11'' \<and> \<not> three_integers gap_1_2 (strip ''9   10 11'')"
proof -
  have 1: "pattern_match Recessions ''9   10 11''" by code_simp
  have "\<not> pattern_match Pockets ''9   10 11''" by code_simp
  then have 2: "\<not> three_integers gap_1_2 (strip ''9   10 11'')"
    using pockets_well_formed [of "''9   10 11''"] by blast
  from 1 2 show ?thesis ..
qed

text \<open>
  Claim C7, as the code has it: a text matches the pattern of the pockets script
  exactly when, trimmed, it is three integers of one or two digits with gaps of one or
  two whitespace characters; it matches the pattern of the recessions script exactly
  when the gaps are of one or more whitespace characters.
\<close>

theorem C7_well_formed_iff:
  "(pattern_match Pockets s \<longleftrightarrow> three_integers gap_1_2 (strip s))
   \<and> (pattern_match Recessions s \<longleftrightarrow> three_integers gap_1_more (strip s))"
  using pockets_well_formed recessions_well_formed by blast

text \<open>
  The examples of the claim, in both pipelines.
\<close>

theorem C7_witness:
  "three_integers gap_1_2 (strip ''9 10 11'') \<and> three_integers gap_1_2 (strip ''9  10  11'')
   \<and> \<not> three_integers gap_1_2 (strip ''9 10'') \<and> \<not> three_integers gap_1_2 (strip ''abc'')
   \<and> \<not> three_integers gap_1_2 (strip '''')
   \<and> three_integers gap_1_more (strip ''9 10 11'') \<and> three_integers gap_1_more (strip ''9  10  11'')
   \<and> \<not> three_integers gap_1_more (strip ''9 10'') \<and> \<not> three_integers gap_1_more (strip ''abc'')
   \<and> \<not> three_integers gap_1_more (strip '''')"
proof -
  have p: "pattern_match Pockets ''9 10 11''" "pattern_match Pockets ''9  10  11''"
    "\<not> pattern_match Pockets ''9 10''" "\<not> pattern_match Pockets ''abc''"
    "\<not> pattern_match Pockets ''''"
    by code_simp+
  have r: "pattern_match Recessions ''9 10 11''" "pattern_match Recessions ''9  10  11''"
    "\<not> pattern_match Recessions ''9 10''" "\<not> pattern_match Recessions ''abc''"
    "\<not> pattern_match Recessions ''''"
    by code_simp+
  from p r C7_well_formed_iff [of "''9 10 11''"] C7_well_formed_iff [of "''9  10  11''"]
    C7_well_formed_iff [of "''9 10''"] C7_well_formed_iff [of "''abc''"]
    C7_well_formed_iff [of "''''"]
  show ?thesis by blast
qed

end
